theory Spec2Isabelle
  imports Complex_Main "HOL-Library.Product_Lexorder"
begin

chapter \<open>The model\<close>

section \<open>Values and errors\<close>

text \<open>
  The notebooks are Python with numpy. Exceptions are values of \<open>error\<close>: \<open>ValueError\<close> is
  what \<open>np.dot\<close> raises on vectors of different length, what \<open>range\<close> raises on a zero step,
  what \<open>np.percentile\<close> raises on a percentile outside 0..100, what \<open>float\<close> raises on text it
  cannot parse and what \<open>compute_breakpoints\<close> raises itself on an unknown method;
  \<open>IndexError\<close> is an index out of range; \<open>CollaboratorError\<close> stands for any failure of
  the embedding or completion service.
\<close>

datatype error = ValueError | IndexError | CollaboratorError

text \<open>
  A float is a finite number or one of the three special values of IEEE 754. The
  components of a vector are finite floats.
\<close>

datatype npfloat = Num real | PosInf | NegInf | NaN

type_synonym vec = "real list"

text \<open>
  The order of floats that are not NaN: the key of a float, compared lexicographically.
  Sorting puts NaN last.
\<close>

fun np_sort_key :: "npfloat \<Rightarrow> nat \<times> real" where
  "np_sort_key NegInf = (0, 0)"
| "np_sort_key (Num r) = (1, r)"
| "np_sort_key PosInf = (2, 0)"
| "np_sort_key NaN = (3, 0)"

text \<open>
  What the code takes from numpy and from the interpreter is a parameter of the model: the
  values numpy computes in floating point, with whatever rounding, underflow and order of
  summation it uses (\<open>np.dot\<close> on arrays of equal length, \<open>np.linalg.norm\<close>, the product,
  quotient and difference of two numpy floats, \<open>np.percentile\<close> on a non-empty sample with
  its default linear method, \<open>np.mean\<close>, \<open>np.std\<close>), the permutation \<open>np.argsort\<close> returns
  with its default sort kind, and the list \<open>list.sort(key=lambda x: x[1], reverse=True)\<close>
  leaves behind. Nothing is assumed of them here; what a property needs of them is stated
  with the property.
\<close>

datatype platform = Platform
  (np_dot_value: "vec \<Rightarrow> vec \<Rightarrow> npfloat")
  (np_norm: "vec \<Rightarrow> npfloat")
  (np_multiply: "npfloat \<Rightarrow> npfloat \<Rightarrow> npfloat")
  (np_divide: "npfloat \<Rightarrow> npfloat \<Rightarrow> npfloat")
  (np_subtract: "npfloat \<Rightarrow> npfloat \<Rightarrow> npfloat")
  (np_argsort: "npfloat list \<Rightarrow> nat list")
  (np_percentile_value: "real list \<Rightarrow> real \<Rightarrow> npfloat")
  (np_mean: "real list \<Rightarrow> npfloat")
  (np_std: "real list \<Rightarrow> npfloat")
  (list_sort_reverse: "(nat \<times> npfloat) list \<Rightarrow> (nat \<times> npfloat) list")

text \<open>
  \<open>np.dot\<close> of two one-dimensional arrays: arrays of different length are rejected.
\<close>

definition np_dot :: "platform \<Rightarrow> vec \<Rightarrow> vec \<Rightarrow> error + npfloat" where
  "np_dot p a b =
     (if length a \<noteq> length b then Inl ValueError else Inr (np_dot_value p a b))"

section \<open>Python sequences\<close>

text \<open>
  A slice \<open>xs[lo:hi]\<close> with step 1: a negative bound counts from the end, every bound is
  clamped to the sequence, and an omitted bound (\<open>None\<close>) is the start or the end.
\<close>

definition slice_bound :: "nat \<Rightarrow> int \<Rightarrow> nat" where
  "slice_bound n i = (if i < 0 then nat (max 0 (int n + i)) else min n (nat i))"

definition py_slice :: "'a list \<Rightarrow> int option \<Rightarrow> int option \<Rightarrow> 'a list" where
  "py_slice xs lo hi =
     (let n = length xs;
          l = (case lo of None \<Rightarrow> 0 | Some i \<Rightarrow> slice_bound n i);
          h = (case hi of None \<Rightarrow> n | Some j \<Rightarrow> slice_bound n j)
      in take (h - l) (drop l xs))"

text \<open>
  Indexing \<open>xs[i]\<close>: a negative index counts from the end; out of range raises.
\<close>

definition py_getitem :: "'a list \<Rightarrow> int \<Rightarrow> error + 'a" where
  "py_getitem xs i =
     (if 0 \<le> i \<and> i < int (length xs) then Inr (xs ! nat i)
      else if i < 0 \<and> - int (length xs) \<le> i then Inr (xs ! nat (int (length xs) + i))
      else Inl IndexError)"

text \<open>
  \<open>range(start, stop, step)\<close> as the list of values a \<open>for\<close> loop runs through. A zero
  step raises \<open>ValueError\<close>.
\<close>

function py_range_from :: "int \<Rightarrow> int \<Rightarrow> int \<Rightarrow> int list" where
  "py_range_from i stop step =
     (if (0 < step \<and> i < stop) \<or> (step < 0 \<and> stop < i)
      then i # py_range_from (i + step) stop step
      else [])"
  by pat_completeness auto
termination
  by (relation "measure (\<lambda>(i, stop, step). nat (if 0 < step then stop - i else i - stop))") auto

declare py_range_from.simps [simp del]

definition py_range :: "int \<Rightarrow> int \<Rightarrow> int \<Rightarrow> error + int list" where
  "py_range start stop step =
     (if step = 0 then Inl ValueError else Inr (py_range_from start stop step))"

text \<open>
  A list comprehension \<open>[f(x) for x in xs]\<close> whose body may raise: the first exception ends it.
\<close>

fun list_comp :: "('a \<Rightarrow> error + 'b) \<Rightarrow> 'a list \<Rightarrow> error + 'b list" where
  "list_comp f [] = Inr []"
| "list_comp f (x # xs) =
     (case f x of
        Inl e \<Rightarrow> Inl e
      | Inr y \<Rightarrow> (case list_comp f xs of Inl e \<Rightarrow> Inl e | Inr ys \<Rightarrow> Inr (y # ys)))"

text \<open>
\<open>sep.join(xs)\<close>.
\<close>

fun py_join :: "string \<Rightarrow> string list \<Rightarrow> string" where
  "py_join sep [] = []"
| "py_join sep [x] = x"
| "py_join sep (x # y # ys) = x @ sep @ py_join sep (y # ys)"

section \<open>Cosine similarity\<close>

text \<open>
  The same body in all three notebooks:
  \<^verbatim>\<open>return np.dot(vec1, vec2) / (np.linalg.norm(vec1) * np.linalg.norm(vec2))\<close>
\<close>

definition cosine_similarity :: "platform \<Rightarrow> vec \<Rightarrow> vec \<Rightarrow> error + npfloat" where
  "cosine_similarity p vec1 vec2 =
     (case np_dot p vec1 vec2 of
        Inl e \<Rightarrow> Inl e
      | Inr d \<Rightarrow> Inr (np_divide p d (np_multiply p (np_norm p vec1) (np_norm p vec2))))"

section \<open>Fixed-window chunking\<close>

text \<open>
  \<^verbatim>\<open>
  def chunk_text(text, n, overlap):
      chunks = []
      for i in range(0, len(text), n - overlap):
          chunks.append(text[i:i + n])
      return chunks\<close>
\<close>

definition chunk_text :: "string \<Rightarrow> int \<Rightarrow> int \<Rightarrow> error + string list" where
  "chunk_text text n overlap =
     (case py_range 0 (int (length text)) (n - overlap) of
        Inl e \<Rightarrow> Inl e
      | Inr is \<Rightarrow> Inr (fold (\<lambda>i chunks. chunks @ [py_slice text (Some i) (Some (i + n))]) is []))"

section \<open>Top-k retrieval\<close>

text \<open>
  The embedding service is a parameter. In \<open>semantic_search\<close> it is
  \<open>get_embedding(query)\<close>, in \<open>retrieve_relevant_chunks\<close> it is
  \<open>create_embeddings([query])[0]\<close>; the lines after it are the same:
  \<^verbatim>\<open>
  def semantic_search(query, text_chunks, chunk_embeddings, k=5):
      query_embedding = get_embedding(query)
      similarities = [cosine_similarity(query_embedding, emb) for emb in chunk_embeddings]
      top_indices = np.argsort(similarities)[-k:][::-1]
      return [text_chunks[i] for i in top_indices]\<close>
\<close>

definition semantic_search ::
  "platform \<Rightarrow> (string \<Rightarrow> error + vec) \<Rightarrow> string \<Rightarrow> string list \<Rightarrow> vec list \<Rightarrow> int
   \<Rightarrow> error + string list" where
  "semantic_search p get_embedding query text_chunks chunk_embeddings k =
     (case get_embedding query of
        Inl e \<Rightarrow> Inl e
      | Inr query_embedding \<Rightarrow>
          (case list_comp (cosine_similarity p query_embedding) chunk_embeddings of
             Inl e \<Rightarrow> Inl e
           | Inr similarities \<Rightarrow>
               (let top_indices = rev (py_slice (np_argsort p similarities) (Some (- k)) None)
                in list_comp (\<lambda>i. py_getitem text_chunks (int i)) top_indices)))"

text \<open>
  \<^verbatim>\<open>
  def retrieve_relevant_chunks(query, text_chunks, chunk_embeddings, k=5):
      query_embedding = create_embeddings([query])[0]
      similarities = [cosine_similarity(query_embedding, emb) for emb in chunk_embeddings]
      top_indices = np.argsort(similarities)[-k:][::-1]
      return [text_chunks[i] for i in top_indices]\<close>
\<close>

definition retrieve_relevant_chunks ::
  "platform \<Rightarrow> (string list \<Rightarrow> error + vec list) \<Rightarrow> string \<Rightarrow> string list \<Rightarrow> vec list \<Rightarrow> int
   \<Rightarrow> error + string list" where
  "retrieve_relevant_chunks p create_embeddings query text_chunks chunk_embeddings k =
     (case create_embeddings [query] of
        Inl e \<Rightarrow> Inl e
      | Inr vs \<Rightarrow>
          (case py_getitem vs 0 of
             Inl e \<Rightarrow> Inl e
           | Inr query_embedding \<Rightarrow>
               (case list_comp (cosine_similarity p query_embedding) chunk_embeddings of
                  Inl e \<Rightarrow> Inl e
                | Inr similarities \<Rightarrow>
                    (let top_indices = rev (py_slice (np_argsort p similarities) (Some (- k)) None)
                     in list_comp (\<lambda>i. py_getitem text_chunks (int i)) top_indices))))"

text \<open>
  The lines the two retrievers share, from the query embedding on, under a name of their own
  for the proofs.
\<close>

definition top_k_chunks :: "platform \<Rightarrow> vec \<Rightarrow> string list \<Rightarrow> vec list \<Rightarrow> int \<Rightarrow> error + string list" where
  "top_k_chunks p query_embedding text_chunks chunk_embeddings k =
     (case list_comp (cosine_similarity p query_embedding) chunk_embeddings of
        Inl e \<Rightarrow> Inl e
      | Inr similarities \<Rightarrow>
          (let top_indices = rev (py_slice (np_argsort p similarities) (Some (- k)) None)
           in list_comp (\<lambda>i. py_getitem text_chunks (int i)) top_indices))"

section \<open>Context-enriched retrieval\<close>

text \<open>
  \<^verbatim>\<open>
  for i, chunk_embedding in enumerate(embeddings):
      similarity_score = cosine_similarity(np.array(query_embedding), np.array(chunk_embedding.embedding))
      similarity_scores.append((i, similarity_score))\<close>
\<close>

fun score_loop ::
  "platform \<Rightarrow> vec \<Rightarrow> (nat \<times> vec) list \<Rightarrow> (nat \<times> npfloat) list \<Rightarrow> error + (nat \<times> npfloat) list" where
  "score_loop p query_embedding [] similarity_scores = Inr similarity_scores"
| "score_loop p query_embedding ((i, chunk_embedding) # rest) similarity_scores =
     (case cosine_similarity p query_embedding chunk_embedding of
        Inl e \<Rightarrow> Inl e
      | Inr similarity_score \<Rightarrow>
          score_loop p query_embedding rest (similarity_scores @ [(i, similarity_score)]))"

text \<open>
  \<^verbatim>\<open>
  def context_enriched_search(query, text_chunks, embeddings, k=1, context_size=1):
      query_embedding = create_embeddings(query).data[0].embedding
      similarity_scores = []
      for ...
      similarity_scores.sort(key=lambda x: x[1], reverse=True)
      top_index = similarity_scores[0][0]
      start = max(0, top_index - context_size)
      end = min(len(text_chunks), top_index + context_size + 1)
      return [text_chunks[i] for i in range(start, end)]\<close>
\<close>

definition context_enriched_search ::
  "platform \<Rightarrow> (string \<Rightarrow> error + vec) \<Rightarrow> string \<Rightarrow> string list \<Rightarrow> vec list \<Rightarrow> int \<Rightarrow> int
   \<Rightarrow> error + string list" where
  "context_enriched_search p create_embeddings query text_chunks embeddings k context_size =
     (case create_embeddings query of
        Inl e \<Rightarrow> Inl e
      | Inr query_embedding \<Rightarrow>
          (case score_loop p query_embedding (enumerate 0 embeddings) [] of
             Inl e \<Rightarrow> Inl e
           | Inr similarity_scores \<Rightarrow>
               (case py_getitem (list_sort_reverse p similarity_scores) 0 of
                  Inl e \<Rightarrow> Inl e
                | Inr (top_index, top_score) \<Rightarrow>
                    (let start = max 0 (int top_index - context_size);
                         end' = min (int (length text_chunks)) (int top_index + context_size + 1)
                     in case py_range start end' 1 of
                          Inl e \<Rightarrow> Inl e
                        | Inr is \<Rightarrow> list_comp (py_getitem text_chunks) is))))"

section \<open>Breakpoint detection\<close>

text \<open>
  \<open>np.percentile(a, q)\<close>: a percentile outside 0..100 and an empty sample are rejected.
\<close>

definition np_percentile :: "platform \<Rightarrow> real list \<Rightarrow> real \<Rightarrow> error + npfloat" where
  "np_percentile p a q =
     (if q < 0 \<or> 100 < q then Inl ValueError
      else if a = [] then Inl IndexError
      else Inr (np_percentile_value p a q))"

text \<open>
The comparison \<open>sim < threshold_value\<close> of a number with a float: false against NaN.
\<close>

fun np_less :: "real \<Rightarrow> npfloat \<Rightarrow> bool" where
  "np_less x (Num y) = (x < y)"
| "np_less x PosInf = True"
| "np_less x NegInf = False"
| "np_less x NaN = False"

text \<open>
  \<^verbatim>\<open>return [i for i, sim in enumerate(similarities) if sim < threshold_value]\<close>
\<close>

definition below_threshold :: "real list \<Rightarrow> npfloat \<Rightarrow> nat list" where
  "below_threshold similarities threshold_value =
     map fst (filter (\<lambda>(i, sim). np_less sim threshold_value) (enumerate 0 similarities))"

text \<open>
  \<^verbatim>\<open>
  def compute_breakpoints(similarities, method="percentile", threshold=90):
      if method == "percentile":
          threshold_value = np.percentile(similarities, threshold)
      elif method == "standard_deviation":
          mean = np.mean(similarities)
          std_dev = np.std(similarities)
          threshold_value = mean - (threshold * std_dev)
      elif method == "interquartile":
          q1, q3 = np.percentile(similarities, [25, 75])
          threshold_value = q1 - 1.5 * (q3 - q1)
      else:
          raise ValueError(...)
      return [i for i, sim in enumerate(similarities) if sim < threshold_value]\<close>
  The similarity series is a list of numbers.
\<close>

definition compute_breakpoints :: "platform \<Rightarrow> real list \<Rightarrow> string \<Rightarrow> real \<Rightarrow> error + nat list" where
  "compute_breakpoints p similarities method threshold =
     (if method = ''percentile'' then
        (case np_percentile p similarities threshold of
           Inl e \<Rightarrow> Inl e
         | Inr threshold_value \<Rightarrow> Inr (below_threshold similarities threshold_value))
      else if method = ''standard_deviation'' then
        (let mean = np_mean p similarities;
             std_dev = np_std p similarities;
             threshold_value = np_subtract p mean (np_multiply p (Num threshold) std_dev)
         in Inr (below_threshold similarities threshold_value))
      else if method = ''interquartile'' then
        (case np_percentile p similarities 25 of
           Inl e \<Rightarrow> Inl e
         | Inr q1 \<Rightarrow>
             (case np_percentile p similarities 75 of
                Inl e \<Rightarrow> Inl e
              | Inr q3 \<Rightarrow>
                  (let threshold_value = np_subtract p q1 (np_multiply p (Num 1.5) (np_subtract p q3 q1))
                   in Inr (below_threshold similarities threshold_value))))
      else Inl ValueError)"

section \<open>Semantic chunk assembly\<close>

text \<open>
  \<^verbatim>\<open>
  def split_into_chunks(sentences, breakpoints):
      chunks = []
      start = 0
      for bp in breakpoints:
          chunks.append(". ".join(sentences[start:bp + 1]) + ".")
          start = bp + 1
      chunks.append(". ".join(sentences[start:]))
      return chunks\<close>
\<close>

fun split_loop :: "string list \<Rightarrow> int list \<Rightarrow> string list \<Rightarrow> int \<Rightarrow> string list \<times> int" where
  "split_loop sentences [] chunks start = (chunks, start)"
| "split_loop sentences (bp # breakpoints) chunks start =
     split_loop sentences breakpoints
       (chunks @ [py_join ''. '' (py_slice sentences (Some start) (Some (bp + 1))) @ ''.''])
       (bp + 1)"

definition split_into_chunks :: "string list \<Rightarrow> int list \<Rightarrow> string list" where
  "split_into_chunks sentences breakpoints =
     (case split_loop sentences breakpoints [] 0 of
        (chunks, start) \<Rightarrow> chunks @ [py_join ''. '' (py_slice sentences (Some start) None)])"

section \<open>Evaluator\<close>

text \<open>
  \<open>str.strip()\<close> removes leading and trailing whitespace (the ASCII whitespace characters
  are modelled).
\<close>

definition is_space :: "char \<Rightarrow> bool" where
  "is_space c \<longleftrightarrow> c \<in> {CHR 0x09, CHR 0x0A, CHR 0x0B, CHR 0x0C, CHR 0x0D,
                         CHR 0x1C, CHR 0x1D, CHR 0x1E, CHR 0x1F, CHR '' ''}"

definition py_strip :: "string \<Rightarrow> string" where
  "py_strip s = rev (dropWhile is_space (rev (dropWhile is_space s)))"

text \<open>
  \<open>float(text)\<close> on a string: optional surrounding whitespace, an optional sign, then
  \<open>inf\<close>, \<open>infinity\<close> or \<open>nan\<close> in any case, or a decimal number: digits with single
  underscores between them, an optional fraction, an optional exponent. Anything else
  raises \<open>ValueError\<close>.
\<close>

definition is_digit :: "char \<Rightarrow> bool" where
  "is_digit c \<longleftrightarrow> (48::nat) \<le> of_char c \<and> of_char c \<le> (57::nat)"

definition digit_of :: "char \<Rightarrow> nat" where
  "digit_of c = of_char c - 48"

fun digitpart :: "string \<Rightarrow> nat list \<Rightarrow> nat list \<times> string" where
  "digitpart [] acc = (acc, [])"
| "digitpart (c # cs) acc =
     (if is_digit c then digitpart cs (acc @ [digit_of c])
      else if c = CHR ''_'' \<and> acc \<noteq> [] \<and> (case cs of [] \<Rightarrow> False | d # ds \<Rightarrow> is_digit d)
      then digitpart cs acc
      else (acc, c # cs))"

definition digits_value :: "nat list \<Rightarrow> nat" where
  "digits_value ds = foldl (\<lambda>a d. 10 * a + d) 0 ds"

definition lower :: "char \<Rightarrow> char" where
  "lower c = (if (65::nat) \<le> of_char c \<and> of_char c \<le> (90::nat)
              then char_of (of_char c + (32::nat)) else c)"

definition split_sign :: "string \<Rightarrow> bool \<times> string" where
  "split_sign s =
     (case s of
        [] \<Rightarrow> (False, [])
      | c # cs \<Rightarrow> if c = CHR ''-'' then (True, cs) else if c = CHR ''+'' then (False, cs) else (False, s))"

definition py_float :: "string \<Rightarrow> error + npfloat" where
  "py_float text =
     (case split_sign (py_strip text) of (neg, body) \<Rightarrow>
        if map lower body = ''inf'' \<or> map lower body = ''infinity''
        then Inr (if neg then NegInf else PosInf)
        else if map lower body = ''nan'' then Inr NaN
        else
          (case digitpart body [] of (ip, r1) \<Rightarrow>
           case (case r1 of
                   [] \<Rightarrow> ([], [])
                 | c # cs \<Rightarrow> if c = CHR ''.'' then digitpart cs [] else ([], r1)) of (fp, r2) \<Rightarrow>
             if ip = [] \<and> fp = [] then Inl ValueError
             else
               (let mantissa = real (digits_value ip) + real (digits_value fp) / 10 ^ length fp;
                    signed = (if neg then - mantissa else mantissa)
                in case r2 of
                     [] \<Rightarrow> Inr (Num signed)
                   | c # cs \<Rightarrow>
                       if c = CHR ''e'' \<or> c = CHR ''E'' then
                         (case split_sign cs of (eneg, ebody) \<Rightarrow>
                          case digitpart ebody [] of (ep, r3) \<Rightarrow>
                            if ep = [] \<or> r3 \<noteq> [] then Inl ValueError
                            else Inr (Num (if eneg then signed / 10 ^ digits_value ep
                                           else signed * 10 ^ digits_value ep)))
                       else Inl ValueError)))"

text \<open>
  The score constants as \<open>str.format\<close> prints them, the two prompt templates with their
  fields filled in, the system message and the two warnings that are printed.
\<close>

definition nl :: string where
  "nl = [CHR 0x0A]"

definition SCORE_FULL :: string where "SCORE_FULL = ''1.0''"

definition SCORE_PARTIAL :: string where "SCORE_PARTIAL = ''0.5''"

definition SCORE_NONE :: string where "SCORE_NONE = ''0.0''"

definition FAITHFULNESS_PROMPT_TEMPLATE :: "string \<Rightarrow> string \<Rightarrow> string \<Rightarrow> string" where
  "FAITHFULNESS_PROMPT_TEMPLATE question response true_answer = concat
     [nl, ''Evaluate the faithfulness of the AI response compared to the true answer.'', nl,
      ''User Query: '', question, nl,
      ''AI Response: '', response, nl,
      ''True Answer: '', true_answer, nl,
      nl,
      ''Faithfulness measures how well the AI response aligns with facts in the true answer, without hallucinations.'', nl,
      nl,
      ''INSTRUCTIONS:'', nl,
      ''- Score STRICTLY using only these values:'', nl,
      ''    * '', SCORE_FULL, '' = Completely faithful, no contradictions with true answer'', nl,
      ''    * '', SCORE_PARTIAL, '' = Partially faithful, minor contradictions'', nl,
      ''    * '', SCORE_NONE, '' = Not faithful, major contradictions or hallucinations'', nl,
      ''- Return ONLY the numerical score ('', SCORE_FULL, '', '', SCORE_PARTIAL, '', or '', SCORE_NONE,
      '') with no explanation or additional text.'', nl]"

definition RELEVANCY_PROMPT_TEMPLATE :: "string \<Rightarrow> string \<Rightarrow> string" where
  "RELEVANCY_PROMPT_TEMPLATE question response = concat
     [nl, ''Evaluate the relevancy of the AI response to the user query.'', nl,
      ''User Query: '', question, nl,
      ''AI Response: '', response, nl,
      nl,
      ''Relevancy measures how well the response addresses the user'', [CHR 0x27], ''s question.'', nl,
      nl,
      ''INSTRUCTIONS:'', nl,
      ''- Score STRICTLY using only these values:'', nl,
      ''    * '', SCORE_FULL, '' = Completely relevant, directly addresses the query'', nl,
      ''    * '', SCORE_PARTIAL, '' = Partially relevant, addresses some aspects'', nl,
      ''    * '', SCORE_NONE, '' = Not relevant, fails to address the query'', nl,
      ''- Return ONLY the numerical score ('', SCORE_FULL, '', '', SCORE_PARTIAL, '', or '', SCORE_NONE,
      '') with no explanation or additional text.'', nl]"

definition EVALUATOR_SYSTEM :: string where
  "EVALUATOR_SYSTEM = ''You are an objective evaluator. Return ONLY the numerical score.''"

definition FAITHFULNESS_WARNING :: string where
  "FAITHFULNESS_WARNING = ''Warning: Could not parse faithfulness score, defaulting to 0''"

definition RELEVANCY_WARNING :: string where
  "RELEVANCY_WARNING = ''Warning: Could not parse relevancy score, defaulting to 0''"

text \<open>
  The completion service is a parameter: it takes the system message and the user prompt
  and returns the reply's text, or fails. The result is the pair of scores together with
  the lines printed.
  \<^verbatim>\<open>
  try:
      faithfulness_score = float(faithfulness_response.choices[0].message.content.strip())
  except ValueError:
      print("Warning: Could not parse faithfulness score, defaulting to 0")
      faithfulness_score = 0.0
  try:
      relevancy_score = float(relevancy_response.choices[0].message.content.strip())
  except ValueError:
      print("Warning: Could not parse relevancy score, defaulting to 0")
      relevancy_score = 0.0
  return faithfulness_score, relevancy_score\<close>
\<close>

definition evaluate_response ::
  "(string \<Rightarrow> string \<Rightarrow> error + string) \<Rightarrow> string \<Rightarrow> string \<Rightarrow> string
   \<Rightarrow> error + ((npfloat \<times> npfloat) \<times> string list)" where
  "evaluate_response completions_create question response true_answer =
     (let faithfulness_prompt = FAITHFULNESS_PROMPT_TEMPLATE question response true_answer;
          relevancy_prompt = RELEVANCY_PROMPT_TEMPLATE question response
      in case completions_create EVALUATOR_SYSTEM faithfulness_prompt of
           Inl e \<Rightarrow> Inl e
         | Inr faithfulness_response \<Rightarrow>
       (case completions_create EVALUATOR_SYSTEM relevancy_prompt of
           Inl e \<Rightarrow> Inl e
         | Inr relevancy_response \<Rightarrow>
       (case (case py_float (py_strip faithfulness_response) of
                Inr v \<Rightarrow> Inr (v, [])
              | Inl e \<Rightarrow> if e = ValueError then Inr (Num 0, [FAITHFULNESS_WARNING]) else Inl e) of
           Inl e \<Rightarrow> Inl e
         | Inr (faithfulness_score, printed1) \<Rightarrow>
       (case (case py_float (py_strip relevancy_response) of
                Inr v \<Rightarrow> Inr (v, [])
              | Inl e \<Rightarrow> if e = ValueError then Inr (Num 0, [RELEVANCY_WARNING]) else Inl e) of
           Inl e \<Rightarrow> Inl e
         | Inr (relevancy_score, printed2) \<Rightarrow>
             Inr ((faithfulness_score, relevancy_score), printed1 @ printed2)))))"

section \<open>Notions of the specification: scores and ranking\<close>

text \<open>
  The float the code computes as the similarity of two vectors of equal dimension: the
  quotient of the dot product by the product of the norms, each as the platform computes it.
\<close>

definition cosine_value :: "platform \<Rightarrow> vec \<Rightarrow> vec \<Rightarrow> npfloat" where
  "cosine_value p a b = np_divide p (np_dot_value p a b) (np_multiply p (np_norm p a) (np_norm p b))"

text \<open>The order of two floats, neither of them NaN.\<close>

definition np_le :: "npfloat \<Rightarrow> npfloat \<Rightarrow> bool" where
  "np_le x y \<longleftrightarrow> np_sort_key x \<le> np_sort_key y"

definition np_lt :: "npfloat \<Rightarrow> npfloat \<Rightarrow> bool" where
  "np_lt x y \<longleftrightarrow> np_sort_key x < np_sort_key y"

text \<open>
  A top-k selection \<open>idx\<close> of the scores \<open>sims\<close>: \<open>min k (length sims)\<close> distinct valid
  indices, in descending order of score, no index left out scoring higher than an index
  selected. Nothing is said of the order among equal scores.
\<close>

definition top_k_spec :: "npfloat list \<Rightarrow> nat \<Rightarrow> nat list \<Rightarrow> bool" where
  "top_k_spec sims k idx \<longleftrightarrow>
     length idx = min k (length sims) \<and>
     distinct idx \<and>
     (\<forall>i \<in> set idx. i < length sims) \<and>
     sorted_wrt (\<lambda>i j. np_le (sims ! j) (sims ! i)) idx \<and>
     (\<forall>j < length sims. j \<notin> set idx \<longrightarrow> (\<forall>i \<in> set idx. np_le (sims ! j) (sims ! i)))"

section \<open>What the properties need of the platform\<close>

text \<open>
  Float arithmetic at zero, as IEEE 754 has it and numpy follows it: a dot product with a
  vector of zeros is zero, the norm of a vector of zeros is zero, zero times anything is
  zero or NaN, and zero by zero and anything by NaN are NaN; nothing raises. (\<open>Num 0\<close>
  stands for both signed zeros.)
\<close>

definition zero_arithmetic :: "platform \<Rightarrow> bool" where
  "zero_arithmetic p \<longleftrightarrow>
     (\<forall>a b. length a = length b \<and> ((\<forall>x \<in> set a. x = 0) \<or> (\<forall>x \<in> set b. x = 0))
        \<longrightarrow> np_dot_value p a b = Num 0) \<and>
     (\<forall>a. (\<forall>x \<in> set a. x = 0) \<longrightarrow> np_norm p a = Num 0) \<and>
     (\<forall>y. np_multiply p (Num 0) y \<in> {Num 0, NaN} \<and> np_multiply p y (Num 0) \<in> {Num 0, NaN}) \<and>
     np_divide p (Num 0) (Num 0) = NaN \<and>
     (\<forall>x. np_divide p x NaN = NaN)"

text \<open>
  \<open>np.argsort\<close> returns a permutation of the indices, and on an array without NaN one
  that puts the values in ascending order. Its default sort kind is not stable: nothing
  is promised of the order among equal values.
\<close>

definition argsort_ascending :: "platform \<Rightarrow> bool" where
  "argsort_ascending p \<longleftrightarrow>
     (\<forall>a. distinct (np_argsort p a) \<and> set (np_argsort p a) = {..<length a} \<and>
          (NaN \<notin> set a \<longrightarrow> sorted (map (\<lambda>i. np_sort_key (a ! i)) (np_argsort p a))))"

text \<open>
  \<open>list.sort(key=lambda x: x[1], reverse=True)\<close> permutes the list. When no key is NaN the
  keys are totally ordered and the sort is the stable descending one: CPython reverses the
  list, sorts it stably in ascending order of the keys and reverses the result, so equal
  keys keep their original order. With a NaN key only the permutation is promised.
\<close>

definition sort_stable_descending :: "platform \<Rightarrow> bool" where
  "sort_stable_descending p \<longleftrightarrow>
     (\<forall>xs. set (list_sort_reverse p xs) = set xs \<and>
           length (list_sort_reverse p xs) = length xs \<and>
           (NaN \<notin> snd ` set xs \<longrightarrow>
              list_sort_reverse p xs = rev (sort_key (\<lambda>x. np_sort_key (snd x)) (rev xs))))"

section \<open>A platform for the examples\<close>

text \<open>
  Arithmetic without rounding, stable sorts, and the percentile by linear interpolation
  between the two neighbours of the virtual index \<open>(n - 1) * q / 100\<close> in the sorted sample.
  The examples below use it on inputs where every intermediate value is a float, so that
  numpy computes the same values there.
\<close>

definition is_negative :: "npfloat \<Rightarrow> bool" where
  "is_negative x = (case x of Num r \<Rightarrow> r < 0 | NegInf \<Rightarrow> True | PosInf \<Rightarrow> False | NaN \<Rightarrow> False)"

definition exact_multiply :: "npfloat \<Rightarrow> npfloat \<Rightarrow> npfloat" where
  "exact_multiply x y =
     (if x = NaN \<or> y = NaN then NaN
      else case (x, y) of
        (Num a, Num b) \<Rightarrow> Num (a * b)
      | other \<Rightarrow> if x = Num 0 \<or> y = Num 0 then NaN
                 else if is_negative x \<noteq> is_negative y then NegInf else PosInf)"

definition exact_divide :: "npfloat \<Rightarrow> npfloat \<Rightarrow> npfloat" where
  "exact_divide x y =
     (if x = NaN \<or> y = NaN then NaN
      else case (x, y) of
        (Num a, Num b) \<Rightarrow>
          if b \<noteq> 0 then Num (a / b)
          else if a = 0 then NaN
          else if 0 < a then PosInf else NegInf
      | (Num a, other) \<Rightarrow> Num 0
      | (other, Num b) \<Rightarrow> if is_negative x \<noteq> (b < 0) then NegInf else PosInf
      | other \<Rightarrow> NaN)"

definition exact_subtract :: "npfloat \<Rightarrow> npfloat \<Rightarrow> npfloat" where
  "exact_subtract x y =
     (if x = NaN \<or> y = NaN then NaN
      else case (x, y) of
        (Num a, Num b) \<Rightarrow> Num (a - b)
      | (Num a, other) \<Rightarrow> if y = PosInf then NegInf else PosInf
      | (other, Num b) \<Rightarrow> x
      | other \<Rightarrow> if x = y then NaN else x)"

definition exact_dot :: "vec \<Rightarrow> vec \<Rightarrow> npfloat" where
  "exact_dot a b = Num (sum_list (map (\<lambda>(x, y). x * y) (zip a b)))"

definition exact_norm :: "vec \<Rightarrow> npfloat" where
  "exact_norm a = Num (sqrt (sum_list (map (\<lambda>x. x * x) a)))"

definition stable_argsort :: "npfloat list \<Rightarrow> nat list" where
  "stable_argsort a = sort_key (\<lambda>i. np_sort_key (a ! i)) [0..<length a]"

definition exact_percentile :: "real list \<Rightarrow> real \<Rightarrow> npfloat" where
  "exact_percentile a q =
     (let arr = sort a;
          n = length arr;
          virtual_index = (real n - 1) * (q / 100);
          previous_index = nat \<lfloor>virtual_index\<rfloor>;
          next_index = min (previous_index + 1) (n - 1);
          gamma = virtual_index - real previous_index
      in Num (arr ! previous_index + (arr ! next_index - arr ! previous_index) * gamma))"

definition exact_mean :: "real list \<Rightarrow> npfloat" where
  "exact_mean a = exact_divide (Num (sum_list a)) (Num (real (length a)))"

definition exact_std :: "real list \<Rightarrow> npfloat" where
  "exact_std a =
     (case exact_mean a of
        Num m \<Rightarrow> (case exact_mean (map (\<lambda>x. (x - m) * (x - m)) a) of Num v \<Rightarrow> Num (sqrt v) | other \<Rightarrow> other)
      | other \<Rightarrow> other)"

definition stable_sort_reverse :: "(nat \<times> npfloat) list \<Rightarrow> (nat \<times> npfloat) list" where
  "stable_sort_reverse xs = rev (sort_key (\<lambda>x. np_sort_key (snd x)) (rev xs))"

definition exact_platform :: platform where
  "exact_platform =
     Platform exact_dot exact_norm exact_multiply exact_divide exact_subtract stable_argsort
       exact_percentile exact_mean exact_std stable_sort_reverse"

section \<open>Notions of the specification: chunk cover\<close>

text \<open>
  The units each chunk covers, as pairs of a first and a last unit index: chunk k runs from
  the previous boundary + 1 (from 0 for the first chunk) through boundary k, and the final
  chunk from the last boundary + 1 through the last of the \<open>N\<close> units. \<open>units\<close> reads such a
  range out of the sentences.
\<close>

definition chunk_cover :: "nat \<Rightarrow> int list \<Rightarrow> (int \<times> int) list" where
  "chunk_cover N boundaries = zip (0 # map (\<lambda>b. b + 1) boundaries) (boundaries @ [int N - 1])"

definition units :: "string list \<Rightarrow> int \<times> int \<Rightarrow> string list" where
  "units sentences r = map (\<lambda>i. sentences ! nat i) [fst r..snd r]"

chapter \<open>Properties\<close>

section \<open>The platform of the examples\<close>

lemma sum_list_zip_left_zero:
  "\<forall>x \<in> set a. x = (0::real) \<Longrightarrow> sum_list (map (\<lambda>(x, y). x * y) (zip a b)) = 0"
proof (induction a arbitrary: b)
  case Nil
  then show ?case by simp
next
  case (Cons x a)
  then show ?case by (cases b) auto
qed

lemma sum_list_zip_right_zero:
  "\<forall>y \<in> set b. y = (0::real) \<Longrightarrow> sum_list (map (\<lambda>(x, y). x * y) (zip a b)) = 0"
proof (induction b arbitrary: a)
  case Nil
  then show ?case by simp
next
  case (Cons y b)
  then show ?case by (cases a) auto
qed

lemma sum_list_squares_zero:
  "\<forall>x \<in> set a. x = (0::real) \<Longrightarrow> sum_list (map (\<lambda>x. x * x) a) = 0"
  by (induction a) auto

lemma exact_multiply_zero:
  "exact_multiply (Num 0) y \<in> {Num 0, NaN}" "exact_multiply y (Num 0) \<in> {Num 0, NaN}"
  by (cases y; simp add: exact_multiply_def)+

lemma zero_arithmetic_exact: "zero_arithmetic exact_platform"
  unfolding zero_arithmetic_def
proof (intro conjI allI impI)
  fix a b :: vec
  assume "length a = length b \<and> ((\<forall>x \<in> set a. x = 0) \<or> (\<forall>x \<in> set b. x = 0))"
  then show "np_dot_value exact_platform a b = Num 0"
    using sum_list_zip_left_zero [of a b] sum_list_zip_right_zero [of b a]
    by (auto simp: exact_platform_def exact_dot_def)
next
  fix a :: vec
  assume "\<forall>x \<in> set a. x = 0"
  then show "np_norm exact_platform a = Num 0"
    by (simp add: exact_platform_def exact_norm_def sum_list_squares_zero)
next
  fix y
  show "np_multiply exact_platform (Num 0) y \<in> {Num 0, NaN}"
    using exact_multiply_zero(1) [of y] by (simp add: exact_platform_def)
  show "np_multiply exact_platform y (Num 0) \<in> {Num 0, NaN}"
    using exact_multiply_zero(2) [of y] by (simp add: exact_platform_def)
next
  show "np_divide exact_platform (Num 0) (Num 0) = NaN"
    by (simp add: exact_platform_def exact_divide_def)
next
  fix x
  show "np_divide exact_platform x NaN = NaN"
    by (simp add: exact_platform_def exact_divide_def)
qed

lemma argsort_ascending_exact: "argsort_ascending exact_platform"
  by (simp add: argsort_ascending_def exact_platform_def stable_argsort_def comp_def
      sorted_sort_key [unfolded comp_def] atLeast_upt [symmetric] lessThan_atLeast0)

lemma sort_stable_descending_exact: "sort_stable_descending exact_platform"
  by (simp add: sort_stable_descending_def exact_platform_def stable_sort_reverse_def)

section \<open>Cosine similarity\<close>

lemma cosine_similarity_eq:
  "length a = length b \<Longrightarrow> cosine_similarity p a b = Inr (cosine_value p a b)"
  by (simp add: cosine_similarity_def np_dot_def cosine_value_def)

lemma cosine_value_zero:
  assumes z: "zero_arithmetic p" and len: "length a = length b"
    and zero: "(\<forall>x \<in> set a. x = 0) \<or> (\<forall>x \<in> set b. x = 0)"
  shows "cosine_value p a b = NaN"
proof -
  have dot: "np_dot_value p a b = Num 0"
    using z len zero unfolding zero_arithmetic_def by blast
  have mul: "np_multiply p (Num 0) y \<in> {Num 0, NaN}" "np_multiply p y (Num 0) \<in> {Num 0, NaN}" for y
    using z unfolding zero_arithmetic_def by blast+
  have norm: "(\<forall>x \<in> set v. x = 0) \<Longrightarrow> np_norm p v = Num 0" for v
    using z unfolding zero_arithmetic_def by blast
  have div: "np_divide p (Num 0) (Num 0) = NaN" "np_divide p x NaN = NaN" for x
    using z unfolding zero_arithmetic_def by blast+
  have "np_multiply p (np_norm p a) (np_norm p b) \<in> {Num 0, NaN}"
    using zero norm [of a] norm [of b] mul(1) [of "np_norm p b"] mul(2) [of "np_norm p a"]
    by auto
  then show ?thesis
    using dot div by (auto simp: cosine_value_def)
qed

text \<open>
  C3 (as amended). For two vectors of equal dimension the function never raises: it returns
  the float quotient of the dot product by the product of the two norms, each as numpy
  computes it. When either vector is the zero vector the value returned is NaN, the
  result of the float division 0/0, and no error is raised.
\<close>

theorem cosine_similarity_value:
  "length a = length b \<Longrightarrow>
   cosine_similarity p a b =
     Inr (np_divide p (np_dot_value p a b) (np_multiply p (np_norm p a) (np_norm p b))) \<and>
   (zero_arithmetic p \<and> ((\<forall>x \<in> set a. x = 0) \<or> (\<forall>x \<in> set b. x = 0))
      \<longrightarrow> cosine_similarity p a b = Inr NaN)"
  using cosine_similarity_eq [of a b p] cosine_value_zero [of p a b]
  by (auto simp: cosine_value_def)

text \<open>
  The vector (3,4) against itself: norm 5, dot product 25, similarity 1. The zero vector
  against it: NaN.
\<close>

theorem cosine_similarity_value_witness:
  "length [3, 4 :: real] = length [3, 4 :: real] \<and>
   zero_arithmetic exact_platform \<and>
   cosine_similarity exact_platform [3, 4] [3, 4] = Inr (Num 1) \<and>
   cosine_similarity exact_platform [0, 0] [3, 4] = Inr NaN"
proof -
  have s: "sqrt 25 = 5"
    using real_sqrt_abs [of 5] by simp
  have l: "length [3, 4 :: real] = length [3, 4 :: real]"
    and l0: "length [0, 0 :: real] = length [3, 4 :: real]"
    by simp_all
  have "cosine_similarity exact_platform [3, 4] [3, 4] = Inr (Num 1)"
    using cosine_similarity_value [OF l, of exact_platform] s
    by (simp add: exact_platform_def exact_dot_def exact_norm_def exact_multiply_def
        exact_divide_def)
  moreover have "zero_arithmetic exact_platform \<and>
                 ((\<forall>x \<in> set [0, 0 :: real]. x = 0) \<or> (\<forall>x \<in> set [3, 4 :: real]. x = 0))"
    using zero_arithmetic_exact by simp
  then have "cosine_similarity exact_platform [0, 0] [3, 4] = Inr NaN"
    using cosine_similarity_value [OF l0, of exact_platform] by blast
  ultimately show ?thesis
    using zero_arithmetic_exact by simp
qed

text \<open>
  C3 as stated fails: for the zero vector against a unit vector no error is raised and the
  value returned is NaN.
\<close>

theorem cosine_similarity_zero_norm_counterexample:
  "cosine_similarity exact_platform [0, 0] [1, 0] = Inr NaN"
  by (simp add: cosine_similarity_def np_dot_def exact_platform_def exact_dot_def
      exact_norm_def exact_multiply_def exact_divide_def)

section \<open>Ranges and slices\<close>

lemma fold_append_map: "fold (\<lambda>x acc. acc @ [f x]) xs acc = acc @ map f xs"
  by (induction xs arbitrary: acc) auto

lemma length_py_range_from:
  "0 < step \<Longrightarrow> length (py_range_from i stop step) = nat (- ((i - stop) div step))"
proof (induction i stop step rule: py_range_from.induct)
  case (1 i stop step)
  show ?case
  proof (cases "i < stop")
    case True
    have "(i - stop + step) div step = (i - stop) div step + 1"
      using 1(2) by (subst div_add_self2) auto
    moreover have "i + step - stop = i - stop + step"
      by simp
    ultimately have d: "(i + step - stop) div step = (i - stop) div step + 1"
      by (simp only:)
    have "(i + step - stop) div step \<le> 0"
      using True 1(2) pos_imp_zdiv_pos_iff [of step "i + step - stop"] by simp
    then show ?thesis
      using 1 True d by (subst py_range_from.simps) (simp add: nat_add_distrib)
  next
    case False
    then have "0 \<le> (i - stop) div step"
      using 1(2) by (simp add: pos_imp_zdiv_nonneg_iff)
    then show ?thesis
      using False 1(2) by (subst py_range_from.simps) simp
  qed
qed

lemma nth_py_range_from:
  "0 < step \<Longrightarrow> k < length (py_range_from i stop step) \<Longrightarrow>
   py_range_from i stop step ! k = i + int k * step"
proof (induction i stop step arbitrary: k rule: py_range_from.induct)
  case (1 i stop step)
  show ?case
  proof (cases "i < stop")
    case True
    then have eq: "py_range_from i stop step = i # py_range_from (i + step) stop step"
      using 1(2) by (subst py_range_from.simps) simp
    show ?thesis
    proof (cases k)
      case 0
      then show ?thesis using eq by simp
    next
      case (Suc k')
      then have "k' < length (py_range_from (i + step) stop step)"
        using 1(3) eq by simp
      then have "py_range_from (i + step) stop step ! k' = i + step + int k' * step"
        using 1(1) [of k'] True 1(2) by simp
      then show ?thesis
        using eq Suc by (simp add: algebra_simps)
    qed
  next
    case False
    then have "py_range_from i stop step = []"
      using 1(2) by (subst py_range_from.simps) simp
    then show ?thesis using 1(3) by simp
  qed
qed

lemma py_range_from_step1: "py_range_from a b 1 = [a..b - 1]"
proof (induction a b "1::int" rule: py_range_from.induct)
  case (1 i stop)
  show ?case
  proof (cases "i < stop")
    case True
    then have "py_range_from i stop 1 = i # [i + 1..stop - 1]"
      using 1 by (subst py_range_from.simps) simp
    then show ?thesis
      using True by (simp add: upto_rec1 [of i "stop - 1"])
  next
    case False
    then show ?thesis
      by (subst py_range_from.simps) simp
  qed
qed

lemma py_slice_window:
  "0 \<le> i \<Longrightarrow> 0 \<le> n \<Longrightarrow>
   py_slice xs (Some i) (Some (i + n)) = take (nat n) (drop (nat i) xs)"
  by (auto simp: py_slice_def slice_bound_def Let_def min_def nat_add_distrib)

lemma py_slice_last_k:
  "1 \<le> k \<Longrightarrow> py_slice xs (Some (- k)) None = drop (length xs - nat k) xs"
proof -
  assume k: "1 \<le> k"
  have "nat (max 0 (int (length xs) - k)) = length xs - nat k"
    using k by (simp add: max_def nat_diff_distrib')
  then show ?thesis
    using k by (simp add: py_slice_def slice_bound_def Let_def)
qed

lemma py_getitem_nat: "i < length xs \<Longrightarrow> py_getitem xs (int i) = Inr (xs ! i)"
  by (simp add: py_getitem_def Let_def)

lemma list_comp_map:
  "\<forall>x \<in> set xs. f x = Inr (g x) \<Longrightarrow> list_comp f xs = Inr (map g xs)"
  by (induction xs) auto

lemma list_comp_getitem_upto:
  "0 \<le> a \<Longrightarrow> b < int (length xs) \<Longrightarrow>
   list_comp (py_getitem xs) [a..b] = Inr (map (\<lambda>i. xs ! nat i) [a..b])"
  by (rule list_comp_map) (simp add: py_getitem_def Let_def)

section \<open>Fixed-window chunking\<close>

lemma chunk_text_pos_step:
  assumes "0 < n - overlap"
  shows "chunk_text text n overlap =
         Inr (map (\<lambda>i. py_slice text (Some i) (Some (i + n)))
                (py_range_from 0 (int (length text)) (n - overlap)))"
  using assms by (simp add: chunk_text_def py_range_def fold_append_map)

text \<open>
  C4. For every text and every window size \<open>n\<close> and overlap with \<open>0 \<le> overlap < n\<close>, the
  chunker returns, and the number of chunks is the ceiling of len(text) / (n - overlap);
  chunk k is the text from offset k * (n - overlap), up to n characters of it, clipped at
  the end of the text. Every chunk, the final partial window included, is non-empty.
\<close>

theorem chunk_text_windows:
  assumes "0 \<le> overlap" and "overlap < n"
  shows "\<exists>chunks. chunk_text text n overlap = Inr chunks \<and>
           length chunks = nat \<lceil>real (length text) / real_of_int (n - overlap)\<rceil> \<and>
           (\<forall>k < length chunks.
              chunks ! k = take (nat n) (drop (k * nat (n - overlap)) text) \<and> chunks ! k \<noteq> [])"
proof -
  let ?step = "n - overlap"
  let ?L = "int (length text)"
  let ?is = "py_range_from 0 ?L ?step"
  let ?chunks = "map (\<lambda>i. py_slice text (Some i) (Some (i + n))) ?is"
  have step: "0 < ?step" and npos: "0 < n"
    using assms by auto
  have ct: "chunk_text text n overlap = Inr ?chunks"
    using step by (rule chunk_text_pos_step)
  have len: "length ?is = nat (- ((- ?L) div ?step))"
    using length_py_range_from [OF step, of 0 ?L] by simp
  have "\<lceil>real (length text) / real_of_int ?step\<rceil> = - ((- ?L) div ?step)"
    using ceiling_divide_eq_div [of ?L ?step] by simp
  then have len': "length ?chunks = nat \<lceil>real (length text) / real_of_int ?step\<rceil>"
    using len by simp
  have nth: "?chunks ! k = take (nat n) (drop (k * nat ?step) text) \<and> ?chunks ! k \<noteq> []"
    if k: "k < length ?chunks" for k
  proof -
    have kis: "k < length ?is"
      using k by simp
    have ik: "?is ! k = int k * ?step"
      using nth_py_range_from [OF step kis] by simp
    have "0 \<le> int k * ?step"
      using step by simp
    moreover have "0 \<le> n"
      using npos by simp
    ultimately have "py_slice text (Some (int k * ?step)) (Some (int k * ?step + n))
                     = take (nat n) (drop (nat (int k * ?step)) text)"
      by (rule py_slice_window)
    then have sl: "?chunks ! k = take (nat n) (drop (nat (int k * ?step)) text)"
      using kis ik by simp
    have natk: "nat (int k * ?step) = k * nat ?step"
      using step by (simp add: nat_mult_distrib)
    have "int k < - ((- ?L) div ?step)"
      using kis len by simp
    then have "(- ?L) div ?step < - int k"
      by simp
    then have "((- ?L) div ?step + 1) * ?step \<le> (- int k) * ?step"
      using step by (intro mult_right_mono) auto
    then have a: "((- ?L) div ?step) * ?step + ?step \<le> - (int k * ?step)"
      by (simp add: distrib_right)
    have b: "(- ?L) mod ?step < ?step"
      using step by (rule pos_mod_bound)
    have c: "((- ?L) div ?step) * ?step + (- ?L) mod ?step = - ?L"
      by (rule div_mult_mod_eq)
    have "int k * ?step < ?L"
      using a b c by linarith
    then have "k * nat ?step < length text"
      using natk by (metis nat_less_iff step zero_le_mult_iff of_nat_0_le_iff less_imp_le)
    then show ?thesis
      using sl natk npos by simp
  qed
  show ?thesis
    using ct len' nth by blast
qed

text \<open>
A text of 10 characters, n = 4, overlap = 1: four chunks, the last one short.
\<close>

theorem chunk_text_windows_witness:
  "(0::int) \<le> 1 \<and> (1::int) < 4 \<and>
   chunk_text ''abcdefghij'' 4 1 = Inr [''abcd'', ''defg'', ''ghij'', ''j'']"
proof -
  have h1: "(0::int) \<le> 1" and h2: "(1::int) < 4"
    by simp_all
  obtain chunks where c: "chunk_text ''abcdefghij'' 4 1 = Inr chunks"
    and l: "length chunks = nat \<lceil>real (length ''abcdefghij'') / real_of_int (4 - 1)\<rceil>"
    and n: "\<forall>k < length chunks.
              chunks ! k = take (nat 4) (drop (k * nat (4 - 1)) ''abcdefghij'') \<and> chunks ! k \<noteq> []"
    using chunk_text_windows [OF h1 h2, of "''abcdefghij''"] by blast
  have l4: "length chunks = 4"
    using l by simp
  obtain c0 c1 c2 c3 where cs: "chunks = [c0, c1, c2, c3]"
    using l4 by (auto simp: length_Suc_conv eval_nat_numeral)
  have "chunks ! 0 = ''abcd''" "chunks ! 1 = ''defg''" "chunks ! 2 = ''ghij''" "chunks ! 3 = ''j''"
    using n l4 by simp_all
  then show ?thesis
    using c cs by simp
qed

text \<open>
  C5 (as amended). When overlap = n the chunker fails (the zero step is rejected by
  \<open>range\<close> with a ValueError) and produces no chunks. When overlap > n it raises nothing and
  returns the empty list of chunks. When overlap < n it does not fail.
\<close>

theorem chunk_text_overlap_cases:
  "(overlap = n \<longrightarrow> chunk_text text n overlap = Inl ValueError) \<and>
   (n < overlap \<longrightarrow> chunk_text text n overlap = Inr []) \<and>
   (overlap < n \<longrightarrow> (\<exists>chunks. chunk_text text n overlap = Inr chunks))"
proof -
  have "chunk_text text n overlap = Inr []" if "n < overlap"
  proof -
    have "py_range_from 0 (int (length text)) (n - overlap) = []"
      using that by (subst py_range_from.simps) simp
    then show ?thesis
      using that by (simp add: chunk_text_def py_range_def)
  qed
  then show ?thesis
    by (auto simp: chunk_text_def py_range_def)
qed

theorem chunk_text_overlap_cases_witness:
  "chunk_text ''abcdefghij'' 4 4 = Inl ValueError \<and>
   chunk_text ''abcdefghij'' 4 6 = Inr [] \<and>
   (\<exists>chunks. chunk_text ''abcdefghij'' 4 1 = Inr chunks)"
  using chunk_text_overlap_cases [of 4 4 "''abcdefghij''"]
        chunk_text_overlap_cases [of 6 4 "''abcdefghij''"]
        chunk_text_overlap_cases [of 1 4 "''abcdefghij''"]
  by simp

text \<open>
  C5 as stated fails: with n = 4 and overlap = 5 the step is negative, the loop body never
  runs, and the empty list is returned without any error.
\<close>

theorem chunk_text_overlap_gt_n_counterexample:
  "(5::int) \<ge> 4 \<and> chunk_text ''abcdefghij'' 4 5 = Inr []"
proof -
  have "py_range_from 0 10 (- 1) = []"
    by (subst py_range_from.simps) simp
  then show ?thesis
    by (simp add: chunk_text_def py_range_def)
qed

section \<open>Stable sorting\<close>

text \<open>
  A stable sort of a list that is ordered by \<open>Q\<close> yields a list ordered by the key first
  and by \<open>Q\<close> among equal keys.
\<close>

lemma sorted_wrt_insort_key_lex:
  assumes "sorted_wrt (\<lambda>a b. f a < f b \<or> (f a = f b \<and> Q a b)) ys"
    and "\<forall>y \<in> set ys. Q x y"
  shows "sorted_wrt (\<lambda>a b. f a < f b \<or> (f a = f b \<and> Q a b)) (insort_key f x ys)"
  using assms
proof (induction ys)
  case Nil
  then show ?case by simp
next
  case (Cons y ys)
  show ?case
  proof (cases "f x \<le> f y")
    case True
    have "f x < f z \<or> (f x = f z \<and> Q x z)" if "z \<in> set (y # ys)" for z
    proof -
      have "f y \<le> f z"
        using that Cons.prems(1) by auto
      then have "f x \<le> f z"
        using True by simp
      moreover have "Q x z"
        using that Cons.prems(2) by auto
      ultimately show ?thesis by auto
    qed
    then show ?thesis
      using True Cons.prems(1) by simp
  next
    case False
    then have "f y < f x" by simp
    moreover have "sorted_wrt (\<lambda>a b. f a < f b \<or> (f a = f b \<and> Q a b)) (insort_key f x ys)"
      using Cons by simp
    ultimately show ?thesis
      using False Cons.prems(1) by (auto simp: set_insort_key)
  qed
qed

lemma sorted_wrt_sort_key_lex:
  "sorted_wrt Q xs \<Longrightarrow>
   sorted_wrt (\<lambda>a b. f a < f b \<or> (f a = f b \<and> Q a b)) (sort_key f xs)"
proof (induction xs)
  case Nil
  then show ?case by simp
next
  case (Cons x xs)
  then show ?case
    by (simp add: sorted_wrt_insort_key_lex)
qed

lemma sorted_wrt_hd:
  "sorted_wrt P xs \<Longrightarrow> x \<in> set xs \<Longrightarrow> x \<noteq> hd xs \<Longrightarrow> P (hd xs) x"
  by (cases xs) auto

lemma stable_sort_reverse_sorted:
  assumes "sorted_wrt (\<lambda>a b. fst a < fst b) xs"
  shows "sorted_wrt (\<lambda>b a. np_sort_key (snd a) < np_sort_key (snd b) \<or>
                          (np_sort_key (snd a) = np_sort_key (snd b) \<and> fst b < fst a))
           (rev (sort_key (\<lambda>x. np_sort_key (snd x)) (rev xs)))"
proof -
  have "sorted_wrt (\<lambda>a b. fst b < fst a) (rev xs)"
    using assms by (simp add: sorted_wrt_rev)
  then have "sorted_wrt (\<lambda>a b. np_sort_key (snd a) < np_sort_key (snd b) \<or>
                          (np_sort_key (snd a) = np_sort_key (snd b) \<and> fst b < fst a))
               (sort_key (\<lambda>x. np_sort_key (snd x)) (rev xs))"
    by (rule sorted_wrt_sort_key_lex)
  then show ?thesis
    by (simp add: sorted_wrt_rev)
qed

section \<open>Top-k retrieval\<close>

lemma semantic_search_top_k_chunks:
  "semantic_search p get_embedding query text_chunks chunk_embeddings k =
     (case get_embedding query of
        Inl e \<Rightarrow> Inl e
      | Inr query_embedding \<Rightarrow> top_k_chunks p query_embedding text_chunks chunk_embeddings k)"
  unfolding semantic_search_def top_k_chunks_def by (rule refl)

lemma retrieve_relevant_chunks_top_k_chunks:
  "retrieve_relevant_chunks p create_embeddings query text_chunks chunk_embeddings k =
     (case create_embeddings [query] of
        Inl e \<Rightarrow> Inl e
      | Inr vs \<Rightarrow>
          (case py_getitem vs 0 of
             Inl e \<Rightarrow> Inl e
           | Inr query_embedding \<Rightarrow> top_k_chunks p query_embedding text_chunks chunk_embeddings k))"
  unfolding retrieve_relevant_chunks_def top_k_chunks_def by (rule refl)

lemma top_k_chunks_spec:
  assumes ok: "argsort_ascending p"
    and len: "length text_chunks = length chunk_embeddings"
    and dims: "\<forall>e \<in> set chunk_embeddings. length e = length q \<and> cosine_value p q e \<noteq> NaN"
    and k: "1 \<le> k"
  shows "\<exists>idx. top_k_chunks p q text_chunks chunk_embeddings k = Inr (map (\<lambda>i. text_chunks ! i) idx) \<and>
               top_k_spec (map (cosine_value p q) chunk_embeddings) (nat k) idx"
proof -
  let ?scores = "map (cosine_value p q) chunk_embeddings"
  let ?N = "length chunk_embeddings"
  let ?s = "np_argsort p ?scores"
  let ?m = "?N - nat k"
  let ?idx = "rev (drop ?m ?s)"
  let ?R = "\<lambda>i j. np_le (?scores ! i) (?scores ! j)"
  have sims: "list_comp (cosine_similarity p q) chunk_embeddings = Inr ?scores"
    using dims by (intro list_comp_map) (simp add: cosine_similarity_eq)
  have nonan: "NaN \<notin> set ?scores"
    using dims by auto
  have ds: "distinct ?s" and sets: "set ?s = {..<?N}"
    using ok unfolding argsort_ascending_def by (metis length_map)+
  have "sorted (map (\<lambda>i. np_sort_key (?scores ! i)) ?s)"
    using ok nonan unfolding argsort_ascending_def by blast
  then have srt: "sorted_wrt ?R ?s"
    by (simp only: sorted_map np_le_def)
  have ls: "length ?s = ?N"
    using distinct_card [OF ds] sets by simp
  have slice: "py_slice ?s (Some (- k)) None = drop ?m ?s"
    using py_slice_last_k [OF k, of ?s] ls by simp
  have inr: "\<forall>i \<in> set ?idx. i < ?N"
    using sets by (auto dest: in_set_dropD)
  then have get: "list_comp (\<lambda>i. py_getitem text_chunks (int i)) ?idx
                  = Inr (map (\<lambda>i. text_chunks ! i) ?idx)"
    using len by (intro list_comp_map) (simp add: py_getitem_nat)
  have res: "top_k_chunks p q text_chunks chunk_embeddings k = Inr (map (\<lambda>i. text_chunks ! i) ?idx)"
    using sims slice get by (simp add: top_k_chunks_def Let_def)
  have l: "length ?idx = min (nat k) (length ?scores)"
    using ls by auto
  have di: "distinct ?idx"
    using ds by simp
  have split: "sorted_wrt ?R (take ?m ?s @ drop ?m ?s)"
    using srt by simp
  have s1: "sorted_wrt (\<lambda>i j. ?R j i) ?idx"
    using split by (simp only: sorted_wrt_append sorted_wrt_rev)
  have s2: "?R j i" if "j < ?N" and "j \<notin> set ?idx" and "i \<in> set ?idx" for i j
  proof -
    have "set ?s = set (take ?m ?s) \<union> set (drop ?m ?s)"
      by (metis append_take_drop_id set_append)
    then have "j \<in> set (take ?m ?s)"
      using that(1,2) sets by auto
    moreover have "i \<in> set (drop ?m ?s)"
      using that(3) by simp
    ultimately show ?thesis
      using split by (simp only: sorted_wrt_append)
  qed
  have "top_k_spec ?scores (nat k) ?idx"
    unfolding top_k_spec_def using l di inr s1 s2 by simp
  then show ?thesis
    using res by blast
qed

lemma top_k_chunks_scores:
  "list_comp (cosine_similarity p q) es = Inr sims \<Longrightarrow>
   top_k_chunks p q tc es k =
     list_comp (\<lambda>i. py_getitem tc (int i)) (rev (py_slice (np_argsort p sims) (Some (- k)) None))"
  by (simp add: top_k_chunks_def)

text \<open>
  C1 (as amended). For a query vector and chunk vectors of the query's dimension, one chunk
  per vector, no computed similarity being NaN, and \<open>k \<ge> 1\<close>: both retrievers return,
  without error, \<open>min k N\<close> distinct chunks, those of highest computed cosine similarity,
  in descending order of similarity. When \<open>k\<close> exceeds the number of chunks, all chunks
  are returned in that order. The order among chunks of equal similarity is the one
  \<open>np.argsort\<close> leaves, reversed; the lower original index is not preferred.
\<close>

theorem top_k_retrieval:
  assumes "argsort_ascending p"
    and "length text_chunks = length chunk_embeddings"
    and "\<forall>e \<in> set chunk_embeddings. length e = length q \<and> cosine_value p q e \<noteq> NaN"
    and "1 \<le> k"
  shows "(get_embedding query = Inr q \<longrightarrow>
            (\<exists>idx. semantic_search p get_embedding query text_chunks chunk_embeddings k
                     = Inr (map (\<lambda>i. text_chunks ! i) idx) \<and>
                   top_k_spec (map (cosine_value p q) chunk_embeddings) (nat k) idx)) \<and>
         (create_embeddings [query] = Inr (q # vs) \<longrightarrow>
            (\<exists>idx. retrieve_relevant_chunks p create_embeddings query text_chunks chunk_embeddings k
                     = Inr (map (\<lambda>i. text_chunks ! i) idx) \<and>
                   top_k_spec (map (cosine_value p q) chunk_embeddings) (nat k) idx))"
proof -
  obtain idx where
    "top_k_chunks p q text_chunks chunk_embeddings k = Inr (map (\<lambda>i. text_chunks ! i) idx)"
    "top_k_spec (map (cosine_value p q) chunk_embeddings) (nat k) idx"
    using top_k_chunks_spec [OF assms] by blast
  then show ?thesis
    by (auto simp: semantic_search_top_k_chunks retrieve_relevant_chunks_top_k_chunks py_getitem_def)
qed

lemma search_example_values:
  "cosine_value exact_platform [1, 0] [0, 1] = Num 0"
  "cosine_value exact_platform [1, 0] [2, 0] = Num 1"
  "cosine_value exact_platform [1, 0] [- 1, 0] = Num (- 1)"
  by (simp_all add: cosine_value_def exact_platform_def exact_dot_def exact_norm_def
      exact_multiply_def exact_divide_def)

lemma search_example_scores:
  "list_comp (cosine_similarity exact_platform [1, 0]) [[0, 1], [2, 0], [- 1, 0]]
   = Inr [Num 0, Num 1, Num (- 1)]"
  by (simp add: cosine_similarity_eq search_example_values)

lemma search_example_argsort: "np_argsort exact_platform [Num 0, Num 1, Num (- 1)] = [2, 0, 1]"
  by (simp add: exact_platform_def stable_argsort_def upt_rec)

text \<open>
  Three chunks of similarity 0, 1 and -1 to the query: k = 2 returns the second and the
  first, k = 10 returns all three in descending order.
\<close>

theorem top_k_retrieval_witness:
  "argsort_ascending exact_platform \<and>
   length [''a'', ''b'', ''c''] = length [[0, 1], [2, 0], [- 1, 0 :: real]] \<and>
   (\<exists>idx. semantic_search exact_platform (\<lambda>t. Inr [1, 0]) ''q'' [''a'', ''b'', ''c'']
              [[0, 1], [2, 0], [- 1, 0]] 2
            = Inr (map (\<lambda>i. [''a'', ''b'', ''c''] ! i) idx) \<and>
          top_k_spec (map (cosine_value exact_platform [1, 0]) [[0, 1], [2, 0], [- 1, 0]]) (nat 2) idx) \<and>
   semantic_search exact_platform (\<lambda>t. Inr [1, 0]) ''q'' [''a'', ''b'', ''c'']
       [[0, 1], [2, 0], [- 1, 0]] 2
     = Inr [''b'', ''a''] \<and>
   semantic_search exact_platform (\<lambda>t. Inr [1, 0]) ''q'' [''a'', ''b'', ''c'']
       [[0, 1], [2, 0], [- 1, 0]] 10
     = Inr [''b'', ''a'', ''c'']"
proof -
  have h1: "length [''a'', ''b'', ''c''] = length [[0, 1], [2, 0], [- 1, 0 :: real]]"
    by simp
  have h2: "\<forall>e \<in> set [[0, 1], [2, 0], [- 1, 0 :: real]].
              length e = length [1, 0 :: real] \<and> cosine_value exact_platform [1, 0] e \<noteq> NaN"
    by (simp add: search_example_values)
  have h4: "(1::int) \<le> 2"
    by simp
  have "\<exists>idx. semantic_search exact_platform (\<lambda>t. Inr [1, 0]) ''q'' [''a'', ''b'', ''c'']
              [[0, 1], [2, 0], [- 1, 0]] 2
            = Inr (map (\<lambda>i. [''a'', ''b'', ''c''] ! i) idx) \<and>
          top_k_spec (map (cosine_value exact_platform [1, 0]) [[0, 1], [2, 0], [- 1, 0]]) (nat 2) idx"
    using top_k_retrieval [OF argsort_ascending_exact h1 h2 h4, of "\<lambda>t. Inr [1, 0]" "''q''"] by simp
  moreover have "semantic_search exact_platform (\<lambda>t. Inr [1, 0]) ''q'' [''a'', ''b'', ''c'']
       [[0, 1], [2, 0], [- 1, 0]] 2 = Inr [''b'', ''a'']"
    by (simp add: semantic_search_top_k_chunks top_k_chunks_scores [OF search_example_scores]
        search_example_argsort py_slice_def slice_bound_def py_getitem_def Let_def)
  moreover have "semantic_search exact_platform (\<lambda>t. Inr [1, 0]) ''q'' [''a'', ''b'', ''c'']
       [[0, 1], [2, 0], [- 1, 0]] 10 = Inr [''b'', ''a'', ''c'']"
    by (simp add: semantic_search_top_k_chunks top_k_chunks_scores [OF search_example_scores]
        search_example_argsort py_slice_def slice_bound_def py_getitem_def Let_def)
  ultimately show ?thesis
    using h1 argsort_ascending_exact by blast
qed

lemma tie_example_scores:
  "list_comp (cosine_similarity exact_platform [1, 0]) [[1, 0], [1, 0]] = Inr [Num 1, Num 1]"
  by (simp add: cosine_similarity_eq cosine_value_def exact_platform_def exact_dot_def
      exact_norm_def exact_multiply_def exact_divide_def)

lemma tie_example_argsort: "np_argsort exact_platform [Num 1, Num 1] = [0, 1]"
  by (simp add: exact_platform_def stable_argsort_def upt_rec)

text \<open>
  C1 as stated fails: two chunks with the same vector both have similarity 1, the two
  indices are sorted as 0, 1, and with k = 1 the chunk returned is the second one, not the
  one of lower index.
\<close>

theorem top_k_tie_counterexample:
  "cosine_similarity exact_platform [1, 0] [1, 0] = Inr (Num 1) \<and>
   np_argsort exact_platform [Num 1, Num 1] = [0, 1] \<and>
   semantic_search exact_platform (\<lambda>t. Inr [1, 0]) ''q'' [''a'', ''b''] [[1, 0], [1, 0]] 1 = Inr [''b'']"
proof -
  have "cosine_similarity exact_platform [1, 0] [1, 0] = Inr (Num 1)"
    by (simp add: cosine_similarity_eq cosine_value_def exact_platform_def exact_dot_def
        exact_norm_def exact_multiply_def exact_divide_def)
  moreover have "semantic_search exact_platform (\<lambda>t. Inr [1, 0]) ''q'' [''a'', ''b''] [[1, 0], [1, 0]] 1
                 = Inr [''b'']"
    by (simp add: semantic_search_top_k_chunks top_k_chunks_scores [OF tie_example_scores]
        tie_example_argsort py_slice_def slice_bound_def py_getitem_def Let_def)
  ultimately show ?thesis
    using tie_example_argsort by simp
qed

text \<open>
  With k = 0 the slice \<open>[-0:]\<close> is the whole array: all chunks are returned, not none.
\<close>

lemma semantic_search_k_zero:
  "semantic_search exact_platform (\<lambda>t. Inr [1, 0]) ''q'' [''a'', ''b'', ''c'']
       [[0, 1], [2, 0], [- 1, 0]] 0
     = Inr [''b'', ''a'', ''c'']"
  by (simp add: semantic_search_top_k_chunks top_k_chunks_scores [OF search_example_scores]
      search_example_argsort py_slice_def slice_bound_def py_getitem_def Let_def)

section \<open>Context-enriched retrieval\<close>

lemma np_sort_key_eq_iff: "np_sort_key x = np_sort_key y \<longleftrightarrow> x = y"
  by (cases x; cases y) simp_all

lemma score_loop_eq:
  "\<forall>e \<in> set ies. length (snd e) = length q \<Longrightarrow>
   score_loop p q ies acc = Inr (acc @ map (\<lambda>e. (fst e, cosine_value p q (snd e))) ies)"
proof (induction ies arbitrary: acc)
  case Nil
  then show ?case by simp
next
  case (Cons e ies)
  obtain i v where e: "e = (i, v)"
    by (cases e)
  have "length v = length q"
    using Cons.prems e by simp
  then have "cosine_similarity p q v = Inr (cosine_value p q v)"
    by (simp add: cosine_similarity_eq)
  then show ?case
    using Cons e by simp
qed

lemma context_enriched_search_window:
  assumes st: "sort_stable_descending p"
    and emb: "create_embeddings query = Inr q"
    and len: "length text_chunks = length embeddings"
    and ne: "embeddings \<noteq> []"
    and dims: "\<forall>e \<in> set embeddings. length e = length q"
  shows "\<exists>top < length text_chunks.
           context_enriched_search p create_embeddings query text_chunks embeddings k c
             = Inr (map (\<lambda>i. text_chunks ! nat i)
                      [max 0 (int top - c) .. min (int (length text_chunks) - 1) (int top + c)]) \<and>
           ((\<forall>e \<in> set embeddings. cosine_value p q e \<noteq> NaN) \<longrightarrow>
              (\<forall>j < length embeddings. j \<noteq> top \<longrightarrow>
                 np_lt (cosine_value p q (embeddings ! j)) (cosine_value p q (embeddings ! top)) \<or>
                 (cosine_value p q (embeddings ! j) = cosine_value p q (embeddings ! top) \<and> top < j)))"
proof -
  let ?N = "length embeddings"
  let ?g = "cosine_value p q"
  let ?h = "\<lambda>e. (fst e, ?g (snd e))"
  let ?scores = "map ?h (enumerate 0 embeddings)"
  let ?t = "list_sort_reverse p ?scores"
  have "\<forall>e \<in> set (enumerate 0 embeddings). length (snd e) = length q"
    using dims by (auto simp: in_set_enumerate_eq)
  then have sl: "score_loop p q (enumerate 0 embeddings) [] = Inr ?scores"
    using score_loop_eq [of "enumerate 0 embeddings" q p "[]"] by simp
  have sett: "set ?t = set ?scores" and lent: "length ?t = ?N"
    using st unfolding sort_stable_descending_def by (metis length_map length_enumerate)+
  have mem: "x \<in> set ?scores \<longleftrightarrow> fst x < ?N \<and> snd x = ?g (embeddings ! fst x)" for x
  proof
    assume "x \<in> set ?scores"
    then obtain e where "e \<in> set (enumerate 0 embeddings)" and "x = ?h e"
      by auto
    then show "fst x < ?N \<and> snd x = ?g (embeddings ! fst x)"
      by (auto simp: in_set_enumerate_eq)
  next
    assume a: "fst x < ?N \<and> snd x = ?g (embeddings ! fst x)"
    have "(fst x, embeddings ! fst x) \<in> set (enumerate 0 embeddings)"
      using a by (simp add: in_set_enumerate_eq)
    then have "?h (fst x, embeddings ! fst x) \<in> ?h ` set (enumerate 0 embeddings)"
      by (rule imageI)
    moreover have "?h (fst x, embeddings ! fst x) = x"
      using a by (cases x) simp
    ultimately show "x \<in> set ?scores"
      by simp
  qed
  have tne: "?t \<noteq> []"
    using lent ne by auto
  obtain top sc where hd: "hd ?t = (top, sc)"
    by (cases "hd ?t")
  have "hd ?t \<in> set ?scores"
    using tne sett hd_in_set by blast
  then have top: "top < ?N" and sc: "sc = ?g (embeddings ! top)"
    using hd mem [of "(top, sc)"] by simp_all
  have get: "py_getitem ?t 0 = Inr (top, sc)"
    using tne hd lent ne by (simp add: py_getitem_def hd_conv_nth)
  let ?start = "max 0 (int top - c)"
  let ?hi = "min (int (length text_chunks) - 1) (int top + c)"
  have e1: "min (int (length text_chunks)) (int top + c + 1) - 1 = ?hi"
    by simp
  have "list_comp (py_getitem text_chunks) [?start..?hi]
        = Inr (map (\<lambda>i. text_chunks ! nat i) [?start..?hi])"
    by (rule list_comp_getitem_upto) simp_all
  then have res: "context_enriched_search p create_embeddings query text_chunks embeddings k c
             = Inr (map (\<lambda>i. text_chunks ! nat i) [?start..?hi])"
    using emb sl get e1
    by (simp add: context_enriched_search_def py_range_def py_range_from_step1 Let_def)
  have best: "np_lt (?g (embeddings ! j)) (?g (embeddings ! top)) \<or>
              (?g (embeddings ! j) = ?g (embeddings ! top) \<and> top < j)"
    if nonan: "\<forall>e \<in> set embeddings. ?g e \<noteq> NaN" and j: "j < ?N" "j \<noteq> top" for j
  proof -
    have "NaN \<notin> snd ` set ?scores"
    proof
      assume "NaN \<in> snd ` set ?scores"
      then obtain x where "x \<in> set ?scores" and "snd x = NaN"
        by force
      then have "?g (embeddings ! fst x) = NaN" and "fst x < ?N"
        using mem [of x] by simp_all
      then show False
        using nonan nth_mem by metis
    qed
    then have t: "?t = rev (sort_key (\<lambda>x. np_sort_key (snd x)) (rev ?scores))"
      using st unfolding sort_stable_descending_def by blast
    have "map fst ?scores = [0..<?N]"
      by (simp add: comp_def)
    then have "sorted_wrt (<) (map fst ?scores)"
      by (simp only: sorted_wrt_upt)
    then have "sorted_wrt (\<lambda>a b. fst a < fst b) ?scores"
      by (simp only: sorted_wrt_map)
    then have srt: "sorted_wrt (\<lambda>b a. np_sort_key (snd a) < np_sort_key (snd b) \<or>
                          (np_sort_key (snd a) = np_sort_key (snd b) \<and> fst b < fst a)) ?t"
      unfolding t by (rule stable_sort_reverse_sorted)
    let ?x = "(j, ?g (embeddings ! j))"
    have "?x \<in> set ?t"
      using sett mem [of ?x] j(1) by simp
    moreover have "?x \<noteq> hd ?t"
      using hd j(2) by simp
    ultimately have "np_sort_key (snd ?x) < np_sort_key (snd (hd ?t)) \<or>
                     (np_sort_key (snd ?x) = np_sort_key (snd (hd ?t)) \<and> fst (hd ?t) < fst ?x)"
      using sorted_wrt_hd [OF srt, of ?x] by blast
    then show ?thesis
      using hd sc by (simp add: np_lt_def np_sort_key_eq_iff)
  qed
  show ?thesis
    using res best top len by (intro exI [of _ top]) auto
qed

text \<open>
  C2. For a query and a non-empty sequence of N chunks, one embedding per chunk, all of the
  query's dimension: the retriever returns, without error, exactly the chunks at the indices
  max(0, top - c) .. min(N - 1, top + c), in index order, for one index \<open>top\<close>; these indices
  are distinct and in range. When no computed similarity is NaN, \<open>top\<close> is the best match:
  every other chunk has a lower computed similarity to the query, or the same similarity and
  a higher index.
\<close>

theorem context_enriched_search_slice:
  assumes "sort_stable_descending p"
    and "create_embeddings query = Inr q"
    and "length text_chunks = length embeddings"
    and "embeddings \<noteq> []"
    and "\<forall>e \<in> set embeddings. length e = length q"
  shows "\<exists>top < length text_chunks.
           context_enriched_search p create_embeddings query text_chunks embeddings k c
             = Inr (map (\<lambda>i. text_chunks ! nat i)
                      [max 0 (int top - c) .. min (int (length text_chunks) - 1) (int top + c)]) \<and>
           distinct [max 0 (int top - c) .. min (int (length text_chunks) - 1) (int top + c)] \<and>
           sorted [max 0 (int top - c) .. min (int (length text_chunks) - 1) (int top + c)] \<and>
           (\<forall>i \<in> set [max 0 (int top - c) .. min (int (length text_chunks) - 1) (int top + c)].
              0 \<le> i \<and> i < int (length text_chunks)) \<and>
           ((\<forall>e \<in> set embeddings. cosine_value p q e \<noteq> NaN) \<longrightarrow>
              (\<forall>j < length embeddings. j \<noteq> top \<longrightarrow>
                 np_lt (cosine_value p q (embeddings ! j)) (cosine_value p q (embeddings ! top)) \<or>
                 (cosine_value p q (embeddings ! j) = cosine_value p q (embeddings ! top) \<and> top < j)))"
proof -
  obtain top where "top < length text_chunks"
    and "context_enriched_search p create_embeddings query text_chunks embeddings k c
             = Inr (map (\<lambda>i. text_chunks ! nat i)
                      [max 0 (int top - c) .. min (int (length text_chunks) - 1) (int top + c)])"
    and "(\<forall>e \<in> set embeddings. cosine_value p q e \<noteq> NaN) \<longrightarrow>
              (\<forall>j < length embeddings. j \<noteq> top \<longrightarrow>
                 np_lt (cosine_value p q (embeddings ! j)) (cosine_value p q (embeddings ! top)) \<or>
                 (cosine_value p q (embeddings ! j) = cosine_value p q (embeddings ! top) \<and> top < j))"
    using context_enriched_search_window
            [of p create_embeddings query q text_chunks embeddings k c] assms by blast
  then show ?thesis
    by (intro exI [of _ top]) simp
qed

lemma window_example_values:
  "cosine_value exact_platform [1, 0] [2, 0] = Num 1"
  "cosine_value exact_platform [1, 0] [0, 1] = Num 0"
  "cosine_value exact_platform [1, 0] [0, 3] = Num 0"
  using real_sqrt_abs [of 3]
  by (simp_all add: cosine_value_def exact_platform_def exact_dot_def exact_norm_def
      exact_multiply_def exact_divide_def)

text \<open>
  Four chunks, the first the best match, context size 2: the window is clamped at the
  start and holds chunks 0 to 2.
\<close>

theorem context_enriched_search_slice_witness:
  "sort_stable_descending exact_platform \<and>
   length [''c0'', ''c1'', ''c2'', ''c3''] = length [[2, 0], [0, 1], [0, 1], [0, 3 :: real]] \<and>
   [[2, 0], [0, 1], [0, 1], [0, 3 :: real]] \<noteq> [] \<and>
   context_enriched_search exact_platform (\<lambda>t. Inr [1, 0]) ''q'' [''c0'', ''c1'', ''c2'', ''c3'']
       [[2, 0], [0, 1], [0, 1], [0, 3]] 1 2
     = Inr [''c0'', ''c1'', ''c2'']"
proof -
  let ?es = "[[2, 0], [0, 1], [0, 1], [0, 3 :: real]]"
  let ?cs = "[''c0'', ''c1'', ''c2'', ''c3'']"
  let ?cv = "cosine_value exact_platform [1, 0]"
  have h1: "(\<lambda>t::string. Inr [1, 0 :: real] :: error + vec) ''q'' = Inr [1, 0]"
    by simp
  have h2: "length ?cs = length ?es"
    by simp
  have h3: "?es \<noteq> []"
    by simp
  have h4: "\<forall>e \<in> set ?es. length e = length [1, 0 :: real]"
    by simp
  have nonan: "\<forall>e \<in> set ?es. ?cv e \<noteq> NaN"
    by (simp add: window_example_values)
  obtain top where t: "top < length ?cs"
    and r: "context_enriched_search exact_platform (\<lambda>t. Inr [1, 0]) ''q'' ?cs ?es 1 2
             = Inr (map (\<lambda>i. ?cs ! nat i) [max 0 (int top - 2) .. min (int (length ?cs) - 1) (int top + 2)])"
    and b: "\<forall>j < length ?es. j \<noteq> top \<longrightarrow>
                 np_lt (?cv (?es ! j)) (?cv (?es ! top)) \<or> (?cv (?es ! j) = ?cv (?es ! top) \<and> top < j)"
    using context_enriched_search_slice
            [of exact_platform "\<lambda>t. Inr [1, 0]" "''q''" "[1, 0]" ?cs ?es 1 2]
          sort_stable_descending_exact h1 h2 h3 h4 nonan by blast
  have c0: "?cv (?es ! 0) = Num 1"
    by (simp add: window_example_values)
  have cj: "?cv (?es ! j) = Num 0" if "j < 4" "j \<noteq> 0" for j
  proof -
    have "j = 1 \<or> j = 2 \<or> j = 3"
      using that by auto
    then show ?thesis
      by (auto simp: window_example_values)
  qed
  have "top = 0"
  proof (rule ccontr)
    assume n0: "top \<noteq> 0"
    then have "np_lt (?cv (?es ! 0)) (?cv (?es ! top)) \<or> (?cv (?es ! 0) = ?cv (?es ! top) \<and> top < 0)"
      using b by auto
    moreover have "?cv (?es ! top) = Num 0"
      using cj [of top] t n0 by simp
    ultimately show False
      using c0 by (simp add: np_lt_def)
  qed
  then have "context_enriched_search exact_platform (\<lambda>t. Inr [1, 0]) ''q'' ?cs ?es 1 2
             = Inr [''c0'', ''c1'', ''c2'']"
    using r by (simp add: upto_rec1)
  then show ?thesis
    using sort_stable_descending_exact by simp
qed

text \<open>
  C10. Two calls of the context-enriched retrieval that differ only in \<open>k\<close> return the same
  result: \<open>k\<close> is accepted and never used.
\<close>

theorem context_enriched_search_k_unused:
  "context_enriched_search p create_embeddings query text_chunks embeddings k context_size
   = context_enriched_search p create_embeddings query text_chunks embeddings k' context_size"
  by (simp add: context_enriched_search_def)

section \<open>Breakpoint detection\<close>

lemma below_threshold_filter:
  "below_threshold sims tv = filter (\<lambda>i. np_less (sims ! i) tv) [0..<length sims]"
proof (induction sims rule: rev_induct)
  case Nil
  then show ?case by (simp add: below_threshold_def)
next
  case (snoc x xs)
  have "filter (\<lambda>i. np_less ((xs @ [x]) ! i) tv) [0..<length xs]
        = filter (\<lambda>i. np_less (xs ! i) tv) [0..<length xs]"
    by (rule filter_cong) (auto simp: nth_append)
  then show ?case
    using snoc by (simp add: below_threshold_def enumerate_append_eq)
qed

lemma below_threshold_sorted:
  "sorted_wrt (<) (below_threshold sims tv) \<and> (\<forall>i \<in> set (below_threshold sims tv). i < length sims)"
  by (simp add: below_threshold_filter sorted_wrt_filter)

lemma compute_breakpoints_interquartile:
  assumes "sims \<noteq> []"
  shows "compute_breakpoints p sims ''interquartile'' t =
         Inr (filter (\<lambda>i. np_less (sims ! i)
                        (np_subtract p (np_percentile_value p sims 25)
                           (np_multiply p (Num 1.5)
                              (np_subtract p (np_percentile_value p sims 75)
                                 (np_percentile_value p sims 25)))))
                [0..<length sims])"
  using assms
  by (simp add: compute_breakpoints_def np_percentile_def below_threshold_filter Let_def)


lemma example_series_sorted:
  "sort [1, - 1, 1 / 2, 1 / 2, 1 :: real] = [- 1, 1 / 2, 1 / 2, 1, 1]"
  by simp

lemma example_series_percentiles:
  "np_percentile_value exact_platform [1, - 1, 1 / 2, 1 / 2, 1] 25 = Num (1 / 2)"
  "np_percentile_value exact_platform [1, - 1, 1 / 2, 1 / 2, 1] 75 = Num 1"
  by (simp_all add: exact_platform_def exact_percentile_def Let_def example_series_sorted)



text \<open>
  C8. For every recognized method, the detector returns on every non-empty series (for the
  percentile method: when the threshold is a percentile, between 0 and 100), and whenever
  it returns, on a series of length L, the breakpoints are strictly increasing and each lies
  within 0 .. L - 1.
\<close>

theorem breakpoints_increasing_in_range:
  "(method \<in> {''percentile'', ''standard_deviation'', ''interquartile''} \<and> sims \<noteq> [] \<and>
    (method = ''percentile'' \<longrightarrow> 0 \<le> t \<and> t \<le> 100)
      \<longrightarrow> (\<exists>bps. compute_breakpoints p sims method t = Inr bps)) \<and>
   (\<forall>bps. compute_breakpoints p sims method t = Inr bps
      \<longrightarrow> sorted_wrt (<) bps \<and> (\<forall>i \<in> set bps. i < length sims))"
proof (intro conjI impI allI)
  assume a: "method \<in> {''percentile'', ''standard_deviation'', ''interquartile''} \<and> sims \<noteq> [] \<and>
    (method = ''percentile'' \<longrightarrow> 0 \<le> t \<and> t \<le> 100)"
  then consider "method = ''percentile''" | "method = ''standard_deviation''"
    | "method = ''interquartile''"
    by auto
  then show "\<exists>bps. compute_breakpoints p sims method t = Inr bps"
  proof cases
    case 1
    then show ?thesis
      using a by (simp add: compute_breakpoints_def np_percentile_def)
  next
    case 2
    then show ?thesis
      by (simp add: compute_breakpoints_def Let_def)
  next
    case 3
    then show ?thesis
      using a compute_breakpoints_interquartile [of sims p t] by simp
  qed
next
  fix bps
  assume "compute_breakpoints p sims method t = Inr bps"
  then obtain tv where "bps = below_threshold sims tv"
    by (auto simp: compute_breakpoints_def Let_def split: if_splits sum.splits)
  then show "sorted_wrt (<) bps" and "\<forall>i \<in> set bps. i < length sims"
    using below_threshold_sorted [of sims tv] by simp_all
qed

theorem breakpoints_increasing_in_range_witness:
  "compute_breakpoints exact_platform [1, - 1, 1 / 2, 1 / 2, 1] ''percentile'' 75 = Inr [1, 2, 3] \<and>
   sorted_wrt (<) [1, 2, 3 :: nat] \<and>
   3 < length [1, - 1, 1 / 2, 1 / 2, 1 :: real]"
proof -
  let ?S = "[1, - 1, 1 / 2, 1 / 2, 1 :: real]"
  have pc: "np_percentile exact_platform ?S 75 = Inr (Num 1)"
    by (simp add: np_percentile_def example_series_percentiles)
  have r: "compute_breakpoints exact_platform ?S ''percentile'' 75 = Inr [1, 2, 3]"
    by (simp add: compute_breakpoints_def pc below_threshold_filter upt_rec)
  have "sorted_wrt (<) [1, 2, 3 :: nat] \<and> (\<forall>i \<in> set [1, 2, 3 :: nat]. i < length ?S)"
    using breakpoints_increasing_in_range [of "''percentile''" ?S 75 exact_platform] r by blast
  then show ?thesis
    using r by simp
qed

section \<open>Semantic chunk assembly\<close>

lemma py_slice_units:
  assumes "0 \<le> lo" and "lo \<le> hi + 1" and "hi < int (length xs)"
  shows "py_slice xs (Some lo) (Some (hi + 1)) = units xs (lo, hi)"
proof -
  have sb1: "slice_bound (length xs) lo = nat lo"
    using assms by (simp add: slice_bound_def)
  have sb2: "slice_bound (length xs) (hi + 1) = nat (hi + 1)"
    using assms by (simp add: slice_bound_def)
  have d: "nat (hi + 1) - nat lo = nat (hi + 1 - lo)"
    using assms by (simp add: nat_diff_distrib')
  have eq: "py_slice xs (Some lo) (Some (hi + 1)) = take (nat (hi + 1 - lo)) (drop (nat lo) xs)"
    by (simp add: py_slice_def sb1 sb2 d Let_def)
  have "take (nat (hi + 1 - lo)) (drop (nat lo) xs) = units xs (lo, hi)"
  proof (rule nth_equalityI)
    show "length (take (nat (hi + 1 - lo)) (drop (nat lo) xs)) = length (units xs (lo, hi))"
      using assms by (simp add: units_def)
  next
    fix i
    assume "i < length (take (nat (hi + 1 - lo)) (drop (nat lo) xs))"
    then have i: "int i < hi + 1 - lo"
      by simp linarith
    have "nat lo + i \<le> length xs"
      using i assms by linarith
    then have a: "take (nat (hi + 1 - lo)) (drop (nat lo) xs) ! i = xs ! (nat lo + i)"
      using i by simp
    have "lo + int i \<le> hi"
      using i by simp
    then have "[lo..hi] ! i = lo + int i"
      by (rule nth_upto)
    then have b: "units xs (lo, hi) ! i = xs ! nat (lo + int i)"
      using i by (simp add: units_def)
    have c: "nat (lo + int i) = nat lo + i"
      using assms(1) by (simp add: nat_add_distrib)
    show "take (nat (hi + 1 - lo)) (drop (nat lo) xs) ! i = units xs (lo, hi) ! i"
      using a b c by simp
  qed
  then show ?thesis
    using eq by simp
qed

lemma py_slice_tail_units:
  assumes "0 \<le> lo" and "lo \<le> int (length xs)"
  shows "py_slice xs (Some lo) None = units xs (lo, int (length xs) - 1)"
proof -
  have "py_slice xs (Some lo) None = py_slice xs (Some lo) (Some (int (length xs) - 1 + 1))"
    using assms by (simp add: py_slice_def slice_bound_def Let_def)
  also have "\<dots> = units xs (lo, int (length xs) - 1)"
    using assms by (intro py_slice_units) auto
  finally show ?thesis .
qed

lemma split_loop_eq:
  assumes "sorted_wrt (<) bps"
    and "\<forall>b \<in> set bps. start \<le> b \<and> b < int (length sentences)"
    and "0 \<le> start"
  shows "split_loop sentences bps chunks start =
           (chunks @ map (\<lambda>r. py_join ''. '' (units sentences r) @ ''.'')
                       (zip (start # map (\<lambda>b. b + 1) bps) bps),
            last (start # map (\<lambda>b. b + 1) bps))"
  using assms
proof (induction bps arbitrary: chunks start)
  case Nil
  then show ?case by simp
next
  case (Cons b bps)
  have sl: "py_slice sentences (Some start) (Some (b + 1)) = units sentences (start, b)"
    using Cons.prems by (intro py_slice_units) auto
  have "sorted_wrt (<) bps" and "\<forall>b' \<in> set bps. b + 1 \<le> b' \<and> b' < int (length sentences)"
    and "0 \<le> b + 1"
    using Cons.prems by auto
  then have "split_loop sentences bps (chunks @ [py_join ''. '' (units sentences (start, b)) @ ''.'']) (b + 1) =
           ((chunks @ [py_join ''. '' (units sentences (start, b)) @ ''.'']) @
              map (\<lambda>r. py_join ''. '' (units sentences r) @ ''.'')
                       (zip ((b + 1) # map (\<lambda>b. b + 1) bps) bps),
            last ((b + 1) # map (\<lambda>b. b + 1) bps))"
    by (rule Cons.IH)
  then show ?case
    using sl by simp
qed

lemma zip_cover:
  "zip (start # map (\<lambda>b. b + 1) bps) (bps @ [M]) =
   zip (start # map (\<lambda>b. b + 1) bps) bps @ [(last (start # map (\<lambda>b. b + (1::int)) bps), M)]"
  by (induction bps arbitrary: start) simp_all

lemma concat_cover:
  assumes "sorted_wrt (<) bps" and "\<forall>b \<in> set bps. start \<le> b \<and> b \<le> M"
  shows "concat (map (\<lambda>r. [fst r..snd r]) (zip (start # map (\<lambda>b. b + 1) bps) (bps @ [M])))
         = [start..M]"
  using assms
proof (induction bps arbitrary: start)
  case Nil
  then show ?case by simp
next
  case (Cons b bps)
  have "concat (map (\<lambda>r. [fst r..snd r]) (zip ((b + 1) # map (\<lambda>b. b + 1) bps) (bps @ [M])))
        = [b + 1..M]"
    using Cons.prems by (intro Cons.IH) auto
  moreover have "[start..M] = [start..b] @ [b + 1..M]"
    using Cons.prems by (intro upto_split2) auto
  ultimately show ?case
    by simp
qed

lemma split_into_chunks_cover:
  assumes "sorted_wrt (<) bps" and "\<forall>b \<in> set bps. 0 \<le> b \<and> b < int (length sentences)"
  shows "split_into_chunks sentences bps =
           map (\<lambda>r. py_join ''. '' (units sentences r) @ ''.'')
             (butlast (chunk_cover (length sentences) bps)) @
           [py_join ''. '' (units sentences (last (chunk_cover (length sentences) bps)))]"
proof -
  let ?N = "length sentences"
  let ?starts = "0 # map (\<lambda>b. b + 1) bps"
  have cov: "chunk_cover ?N bps = zip ?starts bps @ [(last ?starts, int ?N - 1)]"
    by (simp only: chunk_cover_def zip_cover)
  have loop: "split_loop sentences bps [] 0 =
           (map (\<lambda>r. py_join ''. '' (units sentences r) @ ''.'') (zip ?starts bps), last ?starts)"
    using split_loop_eq [of bps 0 sentences "[]"] assms by simp
  have "0 \<le> last ?starts \<and> last ?starts \<le> int ?N"
  proof (cases "bps = []")
    case True
    then show ?thesis by simp
  next
    case False
    then have "last ?starts = last bps + 1"
      by (simp add: last_map)
    moreover have "last bps \<in> set bps"
      using False by simp
    ultimately show ?thesis
      using assms(2) by auto
  qed
  then have "py_slice sentences (Some (last ?starts)) None = units sentences (last ?starts, int ?N - 1)"
    by (intro py_slice_tail_units) auto
  then show ?thesis
    using loop cov by (simp add: split_into_chunks_def)
qed

text \<open>
  C6 (as amended). For N sentence units and a strictly increasing breakpoint sequence with
  every breakpoint in 0 .. N - 1: there is one chunk per breakpoint and a final one; chunk k
  is the units from the previous boundary + 1 through boundary k, joined by ". " and closed
  by ".", and the final chunk is the units after the last boundary, joined by ". "; the
  ranges covered, put one after the other, are exactly 0 .. N - 1, so no unit is
  duplicated or dropped. With no breakpoint there is exactly one chunk, all units in
  order. A breakpoint at N - 2, the last index of the similarity series, leaves the last
  unit as the trailing chunk; a breakpoint at N - 1, the last unit index, which is not an
  index of the similarity series, yields the empty trailing chunk.
\<close>

theorem split_into_chunks_partition:
  assumes "sorted_wrt (<) bps" and "\<forall>b \<in> set bps. 0 \<le> b \<and> b < int (length sentences)"
  shows "split_into_chunks sentences bps =
           map (\<lambda>r. py_join ''. '' (units sentences r) @ ''.'')
             (butlast (chunk_cover (length sentences) bps)) @
           [py_join ''. '' (units sentences (last (chunk_cover (length sentences) bps)))] \<and>
         concat (map (\<lambda>r. [fst r..snd r]) (chunk_cover (length sentences) bps))
           = [0..int (length sentences) - 1] \<and>
         length (split_into_chunks sentences bps) = length bps + 1 \<and>
         (bps = [] \<longrightarrow> split_into_chunks sentences bps = [py_join ''. '' sentences]) \<and>
         (bps \<noteq> [] \<and> last bps = int (length sentences) - 2 \<longrightarrow>
            last (split_into_chunks sentences bps) = sentences ! (length sentences - 1)) \<and>
         (bps \<noteq> [] \<and> last bps = int (length sentences) - 1 \<longrightarrow>
            last (split_into_chunks sentences bps) = [])"
proof -
  let ?N = "length sentences"
  let ?cov = "chunk_cover ?N bps"
  let ?starts = "0 # map (\<lambda>b. b + 1) bps"
  have main: "split_into_chunks sentences bps =
           map (\<lambda>r. py_join ''. '' (units sentences r) @ ''.'') (butlast ?cov) @
           [py_join ''. '' (units sentences (last ?cov))]"
    using assms by (rule split_into_chunks_cover)
  have cov: "?cov = zip ?starts bps @ [(last ?starts, int ?N - 1)]"
    by (simp only: chunk_cover_def zip_cover)
  have part: "concat (map (\<lambda>r. [fst r..snd r]) ?cov) = [0..int ?N - 1]"
    unfolding chunk_cover_def using assms by (intro concat_cover) auto
  have len: "length (split_into_chunks sentences bps) = length bps + 1"
    using main cov by simp
  have lastc: "last (split_into_chunks sentences bps)
               = py_join ''. '' (units sentences (last ?starts, int ?N - 1))"
    using main cov by simp
  have e: "split_into_chunks sentences bps = [py_join ''. '' sentences]" if "bps = []"
  proof -
    have "units sentences (0, int ?N - 1) = sentences"
      by (auto simp: units_def intro!: nth_equalityI)
    then show ?thesis
      using main cov that by simp
  qed
  have l2: "last (split_into_chunks sentences bps) = sentences ! (?N - 1)"
    if "bps \<noteq> []" and "last bps = int ?N - 2"
  proof -
    have "last bps \<in> set bps"
      using that(1) by simp
    then have "0 \<le> last bps"
      using assms(2) by blast
    then have N: "2 \<le> ?N"
      using that(2) by simp
    have "last ?starts = int ?N - 1"
      using that by (simp add: last_map)
    moreover have "nat (int ?N - 1) = ?N - 1"
      by simp
    ultimately show ?thesis
      using lastc by (simp add: units_def)
  qed
  have l1: "last (split_into_chunks sentences bps) = []"
    if "bps \<noteq> []" and "last bps = int ?N - 1"
  proof -
    have "last ?starts = int ?N"
      using that by (simp add: last_map)
    then show ?thesis
      using lastc by (simp add: units_def)
  qed
  show ?thesis
    using main part len e l1 l2 by blast
qed

text \<open>
  Five units and the breakpoints 1 and 3: three chunks covering the units 0..1, 2..3 and 4.
  With the breakpoints 1 and 4 the trailing chunk is empty.
\<close>

theorem split_into_chunks_partition_witness:
  "sorted_wrt (<) [1, 3 :: int] \<and>
   split_into_chunks [''a'', ''b'', ''c'', ''d'', ''e''] [1, 3] = [''a. b.'', ''c. d.'', ''e''] \<and>
   chunk_cover 5 [1, 3] = [(0, 1), (2, 3), (4, 4)] \<and>
   last (split_into_chunks [''a'', ''b'', ''c'', ''d'', ''e''] [1, 3]) = ''e'' \<and>
   last (split_into_chunks [''a'', ''b'', ''c'', ''d'', ''e''] [1, 4]) = []"
proof -
  let ?s = "[''a'', ''b'', ''c'', ''d'', ''e'']"
  have h1: "sorted_wrt (<) [1, 3 :: int]" and h1': "sorted_wrt (<) [1, 4 :: int]"
    by simp_all
  have h2: "\<forall>b \<in> set [1, 3 :: int]. 0 \<le> b \<and> b < int (length ?s)"
    and h2': "\<forall>b \<in> set [1, 4 :: int]. 0 \<le> b \<and> b < int (length ?s)"
    by simp_all
  have c: "chunk_cover 5 [1, 3] = [(0, 1), (2, 3), (4, 4)]"
    by (simp add: chunk_cover_def)
  have c': "chunk_cover (length ?s) [1, 3] = [(0, 1), (2, 3), (4, 4)]"
    by (simp add: chunk_cover_def)
  have "split_into_chunks ?s [1, 3] =
           map (\<lambda>r. py_join ''. '' (units ?s r) @ ''.'') (butlast (chunk_cover (length ?s) [1, 3])) @
           [py_join ''. '' (units ?s (last (chunk_cover (length ?s) [1, 3])))]"
    using split_into_chunks_partition [OF h1 h2] by (rule conjunct1)
  then have "split_into_chunks ?s [1, 3] =
           map (\<lambda>r. py_join ''. '' (units ?s r) @ ''.'') (butlast [(0, 1), (2, 3), (4, 4)]) @
           [py_join ''. '' (units ?s (last [(0, 1), (2, 3), (4, 4)]))]"
    by (simp only: c')
  then have r: "split_into_chunks ?s [1, 3] = [''a. b.'', ''c. d.'', ''e'']"
    by (simp add: units_def upto_rec1)
  have "[1, 4 :: int] \<noteq> [] \<and> last [1, 4] = int (length ?s) - 1"
    by simp
  then have "last (split_into_chunks ?s [1, 4]) = []"
    using split_into_chunks_partition [OF h1' h2'] by blast
  then show ?thesis
    using h1 r c by simp
qed

text \<open>
  C6 as stated fails: three units have two similarities, so that 1 is the last valid
  breakpoint; with it the trailing chunk is the third unit, not an empty chunk.
\<close>

theorem split_into_chunks_last_similarity_index_counterexample:
  "int (length [''a'', ''b'', ''c'']) - 2 = 1 \<and>
   split_into_chunks [''a'', ''b'', ''c''] [1] = [''a. b.'', ''c'']"
  by (simp add: split_into_chunks_def py_slice_def slice_bound_def)

section \<open>Evaluator\<close>

lemma py_float_error: "py_float s = Inl e \<Longrightarrow> e = ValueError"
  by (auto simp: py_float_def Let_def split: prod.splits list.splits if_splits)

text \<open>
  C9. Whenever the completion service answers both requests, the evaluator returns a pair
  of scores and raises nothing. For each criterion whose reply does not parse as a float,
  the score is 0.0 and the warning of that criterion is printed.
\<close>

theorem evaluate_response_soft_fail:
  assumes "completions_create EVALUATOR_SYSTEM (FAITHFULNESS_PROMPT_TEMPLATE question response true_answer) = Inr reply1"
    and "completions_create EVALUATOR_SYSTEM (RELEVANCY_PROMPT_TEMPLATE question response) = Inr reply2"
  shows "\<exists>faithfulness_score relevancy_score printed.
           evaluate_response completions_create question response true_answer
             = Inr ((faithfulness_score, relevancy_score), printed) \<and>
           ((\<forall>v. py_float (py_strip reply1) \<noteq> Inr v) \<longrightarrow>
              faithfulness_score = Num 0 \<and> FAITHFULNESS_WARNING \<in> set printed) \<and>
           ((\<forall>v. py_float (py_strip reply2) \<noteq> Inr v) \<longrightarrow>
              relevancy_score = Num 0 \<and> RELEVANCY_WARNING \<in> set printed)"
proof -
  have p1: "py_float (py_strip reply1) = Inl ValueError \<or> (\<exists>v. py_float (py_strip reply1) = Inr v)"
    using py_float_error [of "py_strip reply1"] by (cases "py_float (py_strip reply1)") auto
  have p2: "py_float (py_strip reply2) = Inl ValueError \<or> (\<exists>v. py_float (py_strip reply2) = Inr v)"
    using py_float_error [of "py_strip reply2"] by (cases "py_float (py_strip reply2)") auto
  from p1 p2 show ?thesis
    using assms by (auto simp: evaluate_response_def Let_def)
qed

lemma mostly_correct_unparsable: "py_float (py_strip ''mostly correct'') = Inl ValueError"
  by code_simp

text \<open>
The reply "mostly correct" on both criteria: both scores 0.0, both warnings printed.
\<close>

theorem evaluate_response_soft_fail_witness:
  "evaluate_response (\<lambda>system user. Inr ''mostly correct'') ''q'' ''a'' ''t''
     = Inr ((Num 0, Num 0), [FAITHFULNESS_WARNING, RELEVANCY_WARNING])"
proof -
  let ?client = "\<lambda>system user :: string. Inr ''mostly correct'' :: error + string"
  have h1: "?client EVALUATOR_SYSTEM (FAITHFULNESS_PROMPT_TEMPLATE ''q'' ''a'' ''t'') = Inr ''mostly correct''"
    and h2: "?client EVALUATOR_SYSTEM (RELEVANCY_PROMPT_TEMPLATE ''q'' ''a'') = Inr ''mostly correct''"
    by simp_all
  obtain f r printed where
    e: "evaluate_response ?client ''q'' ''a'' ''t'' = Inr ((f, r), printed)"
    and "f = Num 0" and "r = Num 0"
    using evaluate_response_soft_fail [of ?client "''q''" "''a''" "''t''", OF h1 h2]
      mostly_correct_unparsable by auto
  moreover have "printed = [FAITHFULNESS_WARNING, RELEVANCY_WARNING]"
    using e by (simp add: evaluate_response_def Let_def mostly_correct_unparsable)
  ultimately show ?thesis
    by simp
qed

text \<open>
A reply that parses is returned as the score, and nothing is printed.
\<close>

lemma evaluate_response_parsed_example:
  "evaluate_response (\<lambda>system user. Inr '' 0.5'' ) ''q'' ''a'' ''t'' = Inr ((Num (1 / 2), Num (1 / 2)), [])"
proof -
  have "py_float (py_strip '' 0.5'') = Inr (Num (1 / 2))"
    by code_simp
  then show ?thesis
    by (simp add: evaluate_response_def Let_def)
qed

end
